theory Spec2Isabelle
  imports Complex_Main "HOL-Library.AList"
begin

section \<open>Python values and exceptions\<close>

text \<open>
  The exceptions the program can meet. All of them are instances of Python's
  \<^verbatim>\<open>Exception\<close>, the class the two handlers of the source (\<^verbatim>\<open>except Exception\<close>)
  catch. \<open>DriverError\<close> stands for any exception of the browser driver (page-load
  errors, \<^verbatim>\<open>TimeoutException\<close>, \<^verbatim>\<open>WebDriverException\<close>, \<^verbatim>\<open>JavascriptException\<close>) and
  \<open>IOError\<close> for a failure of the file system; both carry their message.
\<close>

datatype exn =
    ValueError
  | OverflowError
  | KeyError
  | TypeError
  | AttributeError
  | DriverError string
  | IOError string

section \<open>The date range expander: \<^verbatim>\<open>get_weekdays\<close>\<close>

subsection \<open>The calendar of Python's \<^verbatim>\<open>datetime\<close>\<close>

text \<open>
  A \<^verbatim>\<open>datetime\<close> parsed with the format \<^verbatim>\<open>%m-%d-%Y\<close> has all its time fields zero, and
  adding \<^verbatim>\<open>timedelta(days=1)\<close> keeps them zero, so only year, month and day are kept.
  The functions below follow CPython's \<^verbatim>\<open>_datetimemodule.c\<close>: \<^verbatim>\<open>is_leap\<close>,
  \<^verbatim>\<open>days_in_month\<close>, \<^verbatim>\<open>days_before_month\<close>, \<^verbatim>\<open>days_before_year\<close>, \<^verbatim>\<open>ymd_to_ord\<close>,
  \<^verbatim>\<open>weekday\<close>, and the one-day case of \<^verbatim>\<open>normalize_y_m_d\<close>. Years, months and days
  are natural numbers: a \<^verbatim>\<open>datetime\<close> has a year of at least 1, so \<open>y - 1\<close> below is the
  integer subtraction of the C code wherever the program evaluates it.
\<close>

record datetime =
  year :: nat
  month :: nat
  day :: nat

definition MINYEAR :: nat where "MINYEAR = 1"
definition MAXYEAR :: nat where "MAXYEAR = 9999"

definition is_leap :: "nat \<Rightarrow> bool" where
  "is_leap y = (y mod 4 = 0 \<and> (y mod 100 \<noteq> 0 \<or> y mod 400 = 0))"

definition days_in_month :: "nat \<Rightarrow> nat \<Rightarrow> nat" where
  "days_in_month y m =
     (if m = 2 then (if is_leap y then 29 else 28)
      else if m = 4 \<or> m = 6 \<or> m = 9 \<or> m = 11 then 30
      else 31)"

definition days_before_month :: "nat \<Rightarrow> nat \<Rightarrow> nat" where
  "days_before_month y m =
     [0, 0, 31, 59, 90, 120, 151, 181, 212, 243, 273, 304, 334] ! m
       + (if m > 2 \<and> is_leap y then 1 else 0)"

definition days_before_year :: "nat \<Rightarrow> nat" where
  "days_before_year y =
     (y - 1) * 365 + (y - 1) div 4 - (y - 1) div 100 + (y - 1) div 400"

definition ymd_to_ord :: "datetime \<Rightarrow> nat" where
  "ymd_to_ord d =
     days_before_year (year d) + days_before_month (year d) (month d) + day d"

text \<open>\<^verbatim>\<open>weekday()\<close>: Monday is 0 and Sunday is 6.\<close>

definition weekday :: "datetime \<Rightarrow> nat" where
  "weekday d = (ymd_to_ord d + 6) mod 7"

text \<open>The dates a \<^verbatim>\<open>datetime\<close> can hold: the constructor refuses every other triple.\<close>

definition valid_date :: "datetime \<Rightarrow> bool" where
  "valid_date d =
     (MINYEAR \<le> year d \<and> year d \<le> MAXYEAR \<and> 1 \<le> month d \<and> month d \<le> 12
      \<and> 1 \<le> day d \<and> day d \<le> days_in_month (year d) (month d))"

text \<open>\<^verbatim>\<open>a <= b\<close> and \<^verbatim>\<open>a < b\<close> on datetimes compare year, month and day in this order.\<close>

definition datetime_le :: "datetime \<Rightarrow> datetime \<Rightarrow> bool" where
  "datetime_le a b =
     (year a < year b
      \<or> (year a = year b \<and> (month a < month b \<or> (month a = month b \<and> day a \<le> day b))))"

definition datetime_less :: "datetime \<Rightarrow> datetime \<Rightarrow> bool" where
  "datetime_less a b =
     (year a < year b
      \<or> (year a = year b \<and> (month a < month b \<or> (month a = month b \<and> day a < day b))))"

text \<open>
  \<^verbatim>\<open>current + timedelta(days=1)\<close>: the day after, or \<^verbatim>\<open>OverflowError\<close> (``date value out
  of range'') when the day after would be in year 10000.
\<close>

definition add_one_day :: "datetime \<Rightarrow> exn + datetime" where
  "add_one_day d =
     (if day d + 1 \<le> days_in_month (year d) (month d) then Inr (d\<lparr>day := day d + 1\<rparr>)
      else if month d + 1 \<le> 12 then Inr (d\<lparr>month := month d + 1, day := 1\<rparr>)
      else if year d + 1 \<le> MAXYEAR then Inr \<lparr>year = year d + 1, month = 1, day = 1\<rparr>
      else Inl OverflowError)"

subsection \<open>\<^verbatim>\<open>strptime\<close> and \<^verbatim>\<open>strftime\<close> for the format \<^verbatim>\<open>%m-%d-%Y\<close>\<close>

text \<open>
  Strings are lists of 8-bit characters, so the model covers the ASCII strings.
  \<^verbatim>\<open>strptime\<close> compiles the format to the regular expression
  \<^verbatim>\<open>(1[0-2]|0[1-9]|[1-9])-(3[0-1]|[1-2]\d|0[1-9]|[1-9]| [1-9])-(\d\d\d\d)\<close>, matches it
  at the start of the string, refuses a string with characters left over, and builds
  the date, which refuses year 0 and a day the month does not have. Every failure is a
  \<^verbatim>\<open>ValueError\<close>. Each group is followed by a fixed character, so trying the
  alternatives in order without backtracking accepts the same strings.
\<close>

definition is_digit :: "char \<Rightarrow> bool" where
  "is_digit c = (c \<in> set ''0123456789'')"

definition digit_val :: "char \<Rightarrow> nat" where
  "digit_val c = of_char c - 48"

fun match_m :: "string \<Rightarrow> (nat \<times> string) option" where
  "match_m (a # b # rest) =
     (if a = CHR ''1'' \<and> b \<in> set ''012'' then Some (10 + digit_val b, rest)
      else if a = CHR ''0'' \<and> b \<in> set ''123456789'' then Some (digit_val b, rest)
      else if a \<in> set ''123456789'' then Some (digit_val a, b # rest)
      else None)"
| "match_m [a] = (if a \<in> set ''123456789'' then Some (digit_val a, []) else None)"
| "match_m [] = None"

fun match_d :: "string \<Rightarrow> (nat \<times> string) option" where
  "match_d (a # b # rest) =
     (if a = CHR ''3'' \<and> b \<in> set ''01'' then Some (30 + digit_val b, rest)
      else if a \<in> set ''12'' \<and> is_digit b then Some (10 * digit_val a + digit_val b, rest)
      else if a = CHR ''0'' \<and> b \<in> set ''123456789'' then Some (digit_val b, rest)
      else if a \<in> set ''123456789'' then Some (digit_val a, b # rest)
      else if a = CHR '' '' \<and> b \<in> set ''123456789'' then Some (digit_val b, rest)
      else None)"
| "match_d [a] = (if a \<in> set ''123456789'' then Some (digit_val a, []) else None)"
| "match_d [] = None"

fun match_Y :: "string \<Rightarrow> (nat \<times> string) option" where
  "match_Y (a # b # c # d # rest) =
     (if is_digit a \<and> is_digit b \<and> is_digit c \<and> is_digit d
      then Some (1000 * digit_val a + 100 * digit_val b + 10 * digit_val c + digit_val d, rest)
      else None)"
| "match_Y _ = None"

fun expect_dash :: "string \<Rightarrow> string option" where
  "expect_dash (c # rest) = (if c = CHR ''-'' then Some rest else None)"
| "expect_dash [] = None"

definition strptime :: "string \<Rightarrow> exn + datetime" where
  "strptime s =
     (case match_m s of
        None \<Rightarrow> Inl ValueError
      | Some (m, r1) \<Rightarrow>
     (case expect_dash r1 of
        None \<Rightarrow> Inl ValueError
      | Some r2 \<Rightarrow>
     (case match_d r2 of
        None \<Rightarrow> Inl ValueError
      | Some (d, r3) \<Rightarrow>
     (case expect_dash r3 of
        None \<Rightarrow> Inl ValueError
      | Some r4 \<Rightarrow>
     (case match_Y r4 of
        None \<Rightarrow> Inl ValueError
      | Some (y, r5) \<Rightarrow>
          if r5 \<noteq> [] then Inl ValueError
          else if valid_date \<lparr>year = y, month = m, day = d\<rparr>
          then Inr \<lparr>year = y, month = m, day = d\<rparr>
          else Inl ValueError)))))"

text \<open>
  \<^verbatim>\<open>strftime("%m-%d-%Y")\<close>: month and day on two digits, the year on four, which is
  the width Python documents. CPython hands \<^verbatim>\<open>%Y\<close> to the C library, and glibc prints a
  year below 1000 without the leading zeros: the string defined here is the one every
  platform prints for the years from 1000 on, and what is proved below of the printed
  strings is proved for those years.
\<close>

definition digit_char :: "nat \<Rightarrow> char" where
  "digit_char n = ''0123456789'' ! n"

definition pad2 :: "nat \<Rightarrow> string" where
  "pad2 n = [digit_char (n div 10 mod 10), digit_char (n mod 10)]"

definition pad4 :: "nat \<Rightarrow> string" where
  "pad4 n = [digit_char (n div 1000 mod 10), digit_char (n div 100 mod 10),
             digit_char (n div 10 mod 10), digit_char (n mod 10)]"

definition strftime :: "datetime \<Rightarrow> string" where
  "strftime d = pad2 (month d) @ ''-'' @ pad2 (day d) @ ''-'' @ pad4 (year d)"

subsection \<open>The loop of \<^verbatim>\<open>get_weekdays\<close>\<close>

text \<open>
  \<^verbatim>\<open>while current <= end\<close>: a weekday is appended, and \<^verbatim>\<open>current\<close> moves one day on.
  An exception of the step leaves the function at once.
\<close>

function weekdays_loop :: "datetime \<Rightarrow> datetime \<Rightarrow> string list \<Rightarrow> exn + string list" where
  "weekdays_loop current end_d weekdays =
     (if datetime_le current end_d then
        (case add_one_day current of
           Inl e \<Rightarrow> Inl e
         | Inr next_d \<Rightarrow>
             weekdays_loop next_d end_d
               (if weekday current < 5 then weekdays @ [strftime current] else weekdays))
      else Inr weekdays)"
  by pat_completeness auto
termination
proof (relation "measures [\<lambda>(c, e, w). Suc (year e) - year c,
                            \<lambda>(c, e, w). 12 - month c,
                            \<lambda>(c, e, w). 31 - day c]")
  show "wf (measures [\<lambda>(c, e, w). Suc (year e) - year c,
                      \<lambda>(c, e, w). 12 - month c,
                      \<lambda>(c, e, w). 31 - day c])"
    by simp
next
  fix current end_d :: datetime and weekdays :: "string list" and next_d
  assume le: "datetime_le current end_d" and step: "add_one_day current = Inr next_d"
  have dim: "days_in_month (year current) (month current) \<le> 31"
    by (simp add: days_in_month_def)
  have yle: "year current \<le> year end_d"
    using le by (auto simp: datetime_le_def)
  show "((next_d, end_d, if weekday current < 5 then weekdays @ [strftime current] else weekdays),
         current, end_d, weekdays)
        \<in> measures [\<lambda>(c, e, w). Suc (year e) - year c,
                     \<lambda>(c, e, w). 12 - month c,
                     \<lambda>(c, e, w). 31 - day c]"
    using step dim yle
    by (auto simp: add_one_day_def split: if_splits)
qed

definition get_weekdays :: "string \<Rightarrow> string \<Rightarrow> exn + string list" where
  "get_weekdays start_date end_date =
     (case strptime start_date of
        Inl e \<Rightarrow> Inl e
      | Inr start \<Rightarrow>
     (case strptime end_date of
        Inl e \<Rightarrow> Inl e
      | Inr end_d \<Rightarrow> weekdays_loop start end_d []))"

text \<open>
  Two notions for stating what the loop returns: the last day a \<^verbatim>\<open>datetime\<close> can
  hold, and the set of dates wanted from a range, the weekdays (Monday to Friday) from
  \<open>a\<close> to \<open>b\<close> inclusive.
\<close>

definition last_day :: datetime where
  "last_day = \<lparr>year = 9999, month = 12, day = 31\<rparr>"

definition wanted :: "datetime \<Rightarrow> datetime \<Rightarrow> datetime set" where
  "wanted a b = {d. valid_date d \<and> datetime_le a d \<and> datetime_le d b \<and> weekday d < 5}"

section \<open>The record normalizer\<close>

subsection \<open>Values decoded by \<^verbatim>\<open>json.loads\<close>\<close>

text \<open>
  \<^verbatim>\<open>json.loads\<close> returns \<^verbatim>\<open>None\<close>, a \<^verbatim>\<open>bool\<close>, a number, a \<^verbatim>\<open>str\<close>, a \<^verbatim>\<open>list\<close> or a
  \<^verbatim>\<open>dict\<close> with string keys. A dict is an association list in insertion order whose
  entry for a key is the first one with that key.
\<close>

datatype json =
    JNull
  | JBool bool
  | JNum real
  | JStr string
  | JArr "json list"
  | JObj "(string \<times> json) list"

text \<open>The truth value Python gives a decoded value in \<^verbatim>\<open>if x:\<close>.\<close>

fun truthy :: "json \<Rightarrow> bool" where
  "truthy JNull = False"
| "truthy (JBool b) = b"
| "truthy (JNum x) = (x \<noteq> 0)"
| "truthy (JStr s) = (s \<noteq> [])"
| "truthy (JArr xs) = (xs \<noteq> [])"
| "truthy (JObj kvs) = (kvs \<noteq> [])"

text \<open>
  \<^verbatim>\<open>x[key]\<close> with a string key: \<^verbatim>\<open>KeyError\<close> on a dict without the key, \<^verbatim>\<open>TypeError\<close>
  on every value that is not a dict.
\<close>

fun getitem :: "json \<Rightarrow> string \<Rightarrow> exn + json" where
  "getitem (JObj kvs) key =
     (case map_of kvs key of None \<Rightarrow> Inl KeyError | Some v \<Rightarrow> Inr v)"
| "getitem _ key = Inl TypeError"

text \<open>
  \<^verbatim>\<open>x.get(key)\<close>: \<^verbatim>\<open>None\<close> on a dict without the key, \<^verbatim>\<open>AttributeError\<close> on every
  value that is not a dict.
\<close>

fun dict_get :: "json \<Rightarrow> string \<Rightarrow> exn + json" where
  "dict_get (JObj kvs) key =
     (case map_of kvs key of None \<Rightarrow> Inr JNull | Some v \<Rightarrow> Inr v)"
| "dict_get _ key = Inl AttributeError"

text \<open>
  The items \<^verbatim>\<open>zip\<close> draws from an argument: the elements of a list, the characters of a
  string, the keys of a dict; \<^verbatim>\<open>TypeError\<close> on a value that is not iterable.
\<close>

fun iter :: "json \<Rightarrow> exn + json list" where
  "iter (JArr xs) = Inr xs"
| "iter (JStr s) = Inr (map (\<lambda>c. JStr [c]) s)"
| "iter (JObj kvs) = Inr (map (\<lambda>kv. JStr (fst kv)) kvs)"
| "iter _ = Inl TypeError"

subsection \<open>Sequencing and loops with exceptions\<close>

text \<open>
  A computation that can raise returns \<open>Inl\<close> of the exception. \<open>and_then\<close> runs the
  next statement on the value of the first unless the first raised, and \<open>for_each\<close> is
  a \<^verbatim>\<open>for\<close> loop over a list whose body updates the loop's state and can raise.
\<close>

definition and_then :: "exn + 'a \<Rightarrow> ('a \<Rightarrow> exn + 'b) \<Rightarrow> exn + 'b" where
  "and_then r f = (case r of Inl e \<Rightarrow> Inl e | Inr x \<Rightarrow> f x)"

fun for_each :: "('a \<Rightarrow> 's \<Rightarrow> exn + 's) \<Rightarrow> 'a list \<Rightarrow> 's \<Rightarrow> exn + 's" where
  "for_each body [] s = Inr s"
| "for_each body (x # xs) s =
     (case body x s of Inl e \<Rightarrow> Inl e | Inr s' \<Rightarrow> for_each body xs s')"

subsection \<open>Lines 121 to 137 of \<^verbatim>\<open>nyse_auction_scraper_example\<close>\<close>

text \<open>
  The body of \<^verbatim>\<open>for t, v in zip(times, values)\<close>: one dict is appended to
  \<^verbatim>\<open>all_data\<close>. \<^verbatim>\<open>v['y']\<close> is evaluated before \<^verbatim>\<open>v['label']\<close>.
\<close>

definition append_record ::
  "string \<Rightarrow> string \<Rightarrow> string \<Rightarrow> string \<Rightarrow> json \<times> json \<Rightarrow> json list \<Rightarrow> exn + json list" where
  "append_record ticker date auction_type metric_name tv all_data =
     and_then (getitem (snd tv) ''y'') (\<lambda>vy.
     and_then (getitem (snd tv) ''label'') (\<lambda>vlabel.
       Inr (all_data @
         [JObj [(''symbol'', JStr ticker),
                (''date'', JStr date),
                (''auction_type'', JStr auction_type),
                (''metric'', JStr metric_name),
                (''time'', fst tv),
                (''value'', vy),
                (''label'', vlabel)]])))"

definition metric_name_of :: "string \<Rightarrow> string" where
  "metric_name_of metric =
     (if metric = ''paired'' then ''paired_quantity''
      else if metric = ''price'' then ''clearing_price''
      else metric)"

text \<open>The body of \<^verbatim>\<open>for metric in ['imbalance', 'paired', 'price']\<close>.\<close>

definition metric_body ::
  "string \<Rightarrow> string \<Rightarrow> json \<Rightarrow> string \<Rightarrow> string \<Rightarrow> json list \<Rightarrow> exn + json list" where
  "metric_body ticker date raw_data auction_type metric all_data =
     and_then (getitem raw_data auction_type) (\<lambda>phase.
     and_then (dict_get phase metric) (\<lambda>present.
       if truthy present then
         and_then (getitem raw_data auction_type) (\<lambda>phase1.
         and_then (getitem phase1 metric) (\<lambda>series1.
         and_then (getitem series1 ''times'') (\<lambda>times_v.
         and_then (getitem raw_data auction_type) (\<lambda>phase2.
         and_then (getitem phase2 metric) (\<lambda>series2.
         and_then (getitem series2 ''values'') (\<lambda>values_v.
         and_then (iter times_v) (\<lambda>ts.
         and_then (iter values_v) (\<lambda>vs.
           for_each (append_record ticker date auction_type (metric_name_of metric))
             (zip ts vs) all_data))))))))
       else Inr all_data))"

text \<open>The body of \<^verbatim>\<open>for auction_type in ['opening', 'closing']\<close>.\<close>

definition auction_type_body ::
  "string \<Rightarrow> string \<Rightarrow> json \<Rightarrow> string \<Rightarrow> json list \<Rightarrow> exn + json list" where
  "auction_type_body ticker date raw_data auction_type all_data =
     and_then (getitem raw_data auction_type) (\<lambda>phase.
       if truthy phase then
         for_each (metric_body ticker date raw_data auction_type)
           [''imbalance'', ''paired'', ''price''] all_data
       else Inr all_data)"

text \<open>
  The normalizer: the records of one request, appended to \<^verbatim>\<open>all_data\<close>. When it raises,
  the run is over and \<^verbatim>\<open>all_data\<close> is never read again, so the records appended before
  the exception are not kept.
\<close>

definition normalizer :: "string \<Rightarrow> string \<Rightarrow> json \<Rightarrow> json list \<Rightarrow> exn + json list" where
  "normalizer ticker date raw_data all_data =
     for_each (auction_type_body ticker date raw_data) [''opening'', ''closing''] all_data"

subsection \<open>The shape of a RawChartBundle\<close>

text \<open>
  What the in-page script returns when every chart is as expected: both phases are
  dicts; a phase that is not empty holds, under each of the three slots, nothing, a
  value Python takes for false (\<^verbatim>\<open>null\<close>), or a SeriesData, a dict whose \<^verbatim>\<open>times\<close> and
  \<^verbatim>\<open>values\<close> are lists, every value a dict with the keys \<^verbatim>\<open>y\<close> and \<^verbatim>\<open>label\<close>.
\<close>

definition lookup :: "json \<Rightarrow> string \<Rightarrow> json option" where
  "lookup j key = (case j of JObj kvs \<Rightarrow> map_of kvs key | _ \<Rightarrow> None)"

definition is_point :: "json \<Rightarrow> bool" where
  "is_point v = (lookup v ''y'' \<noteq> None \<and> lookup v ''label'' \<noteq> None)"

definition is_series :: "json \<Rightarrow> bool" where
  "is_series s =
     (case (lookup s ''times'', lookup s ''values'') of
        (Some (JArr ts), Some (JArr vs)) \<Rightarrow> list_all is_point vs
      | _ \<Rightarrow> False)"

definition is_slot :: "json option \<Rightarrow> bool" where
  "is_slot v = (case v of None \<Rightarrow> True | Some s \<Rightarrow> if truthy s then is_series s else True)"

definition is_phase :: "json \<Rightarrow> bool" where
  "is_phase p =
     (case p of
        JObj kvs \<Rightarrow> list_all (\<lambda>metric. is_slot (map_of kvs metric)) [''imbalance'', ''paired'', ''price'']
      | _ \<Rightarrow> False)"

definition is_bundle :: "json \<Rightarrow> bool" where
  "is_bundle raw_data =
     (case (lookup raw_data ''opening'', lookup raw_data ''closing'') of
        (Some po, Some pc) \<Rightarrow> is_phase po \<and> is_phase pc
      | _ \<Rightarrow> False)"

text \<open>
  The SeriesData present at a phase and a metric of a bundle, as its \<^verbatim>\<open>times\<close> and its
  \<^verbatim>\<open>values\<close>; \<open>None\<close> when the phase is empty or the slot holds no SeriesData.
\<close>

definition series_at :: "json \<Rightarrow> string \<Rightarrow> string \<Rightarrow> (json list \<times> json list) option" where
  "series_at raw_data auction_type metric =
     (case lookup raw_data auction_type of
        None \<Rightarrow> None
      | Some phase \<Rightarrow>
     (case lookup phase metric of
        None \<Rightarrow> None
      | Some s \<Rightarrow>
     (case (lookup s ''times'', lookup s ''values'') of
        (Some (JArr ts), Some (JArr vs)) \<Rightarrow> Some (ts, vs)
      | _ \<Rightarrow> None)))"

text \<open>The six (phase, metric) groups, in the order the loops visit them.\<close>

definition groups :: "(string \<times> string) list" where
  "groups = [(''opening'', ''imbalance''), (''opening'', ''paired''), (''opening'', ''price''),
             (''closing'', ''imbalance''), (''closing'', ''paired''), (''closing'', ''price'')]"


text \<open>The record the normalizer builds from index \<open>i\<close> of a series: \<open>t\<close> and \<open>v\<close> are item \<open>i\<close> of \<^verbatim>\<open>times\<close> and of \<^verbatim>\<open>values\<close>.\<close>

definition field :: "json \<Rightarrow> string \<Rightarrow> json" where
  "field v key = (case lookup v key of None \<Rightarrow> JNull | Some x \<Rightarrow> x)"

definition record_of :: "string \<Rightarrow> string \<Rightarrow> string \<Rightarrow> string \<Rightarrow> json \<times> json \<Rightarrow> json" where
  "record_of ticker date auction_type metric_name tv =
     JObj [(''symbol'', JStr ticker),
           (''date'', JStr date),
           (''auction_type'', JStr auction_type),
           (''metric'', JStr metric_name),
           (''time'', fst tv),
           (''value'', field (snd tv) ''y''),
           (''label'', field (snd tv) ''label'')]"

definition group_records :: "string \<Rightarrow> string \<Rightarrow> json \<Rightarrow> string \<times> string \<Rightarrow> json list" where
  "group_records ticker date raw_data g =
     (case series_at raw_data (fst g) (snd g) of
        None \<Rightarrow> []
      | Some (ts, vs) \<Rightarrow> map (record_of ticker date (fst g) (metric_name_of (snd g))) (zip ts vs))"

text \<open>Whether a record belongs to a group: its \<^verbatim>\<open>auction_type\<close> and \<^verbatim>\<open>metric\<close> fields.\<close>

definition in_group :: "string \<times> string \<Rightarrow> json \<Rightarrow> bool" where
  "in_group g r =
     (lookup r ''auction_type'' = Some (JStr (fst g))
      \<and> lookup r ''metric'' = Some (JStr (metric_name_of (snd g))))"


text \<open>
  Two bundles for concrete runs: the scenario of the specification, with one series of
  two points, and a bundle whose closing price has three times and two values.
\<close>

definition scenario_bundle :: json where
  "scenario_bundle =
     JObj [(''opening'',
            JObj [(''imbalance'',
                   JObj [(''times'', JArr [JStr ''09:28:00'', JStr ''09:29:00'']),
                         (''values'',
                          JArr [JObj [(''y'', JNum 1000), (''label'', JStr ''1.0K'')],
                                JObj [(''y'', JNum 1200), (''label'', JNull)]])]),
                  (''paired'', JNull),
                  (''price'', JNull)]),
           (''closing'', JObj [])]"

definition ragged_bundle :: json where
  "ragged_bundle =
     JObj [(''opening'', JObj []),
           (''closing'',
            JObj [(''imbalance'', JNull),
                  (''paired'', JNull),
                  (''price'',
                   JObj [(''times'', JArr [JStr ''15:50:00'', JStr ''15:55:00'', JStr ''15:59:00'']),
                         (''values'',
                          JArr [JObj [(''y'', JNum 101), (''label'', JNull)],
                                JObj [(''y'', JNum 102), (''label'', JNull)]])])])]"

section \<open>The chart extractor: the script run in the page\<close>

text \<open>
  What the script reads from the page. A property that JavaScript finds \<^verbatim>\<open>undefined\<close>
  is \<open>None\<close>. \<^verbatim>\<open>Highcharts.charts\<close> is an array whose entries are charts or
  \<^verbatim>\<open>undefined\<close> (a destroyed chart leaves a hole), \<open>headers\<close> is the \<^verbatim>\<open>textContent\<close> of
  the elements \<^verbatim>\<open>h6.mb-4.pl-8.text-black\<close> in document order. A point has its \<^verbatim>\<open>y\<close> and,
  when it has a \<^verbatim>\<open>dataLabel\<close>, the \<^verbatim>\<open>textStr\<close> of the label.
\<close>

record point =
  point_y :: "json option"
  point_dataLabel :: "json option option"

record series =
  series_points :: "point list"

record axis =
  axis_categories :: "json option"

record chart =
  chart_series :: "series list option"
  chart_xAxis :: "axis list"

record page =
  headers :: "string list"
  charts :: "chart option list"

text \<open>
  The script returns \<^verbatim>\<open>JSON.stringify(rawData)\<close> and Python decodes it with
  \<^verbatim>\<open>json.loads\<close>, so the objects are built here the way they arrive in Python:
  \<^verbatim>\<open>JSON.stringify\<close> leaves out a property whose value is \<^verbatim>\<open>undefined\<close> and keeps one
  whose value is \<^verbatim>\<open>null\<close>.
\<close>

definition property :: "string \<Rightarrow> json option \<Rightarrow> (string \<times> json) list" where
  "property key v = (case v of None \<Rightarrow> [] | Some x \<Rightarrow> [(key, x)])"

text \<open>An array read at an index: \<^verbatim>\<open>undefined\<close> past its end.\<close>

definition at_index :: "'a option list \<Rightarrow> nat \<Rightarrow> 'a option" where
  "at_index xs i = (if i < length xs then xs ! i else None)"

text \<open>The function mapped over \<^verbatim>\<open>chart.series[0].points\<close>.\<close>

definition point_data :: "point \<Rightarrow> json" where
  "point_data p =
     JObj (property ''y'' (point_y p)
           @ property ''label''
               (case point_dataLabel p of None \<Rightarrow> Some JNull | Some textStr \<Rightarrow> textStr))"

text \<open>
  \<^verbatim>\<open>extractSeriesData\<close>: \<^verbatim>\<open>null\<close> for a chart that is missing or has no first series.
  Reading \<^verbatim>\<open>chart.xAxis[0].categories\<close> of a chart without an x axis throws, and the
  driver raises the error of the script in Python.
\<close>

definition extractSeriesData :: "chart option \<Rightarrow> exn + json" where
  "extractSeriesData c =
     (case c of
        None \<Rightarrow> Inr JNull
      | Some ch \<Rightarrow>
     (case chart_series ch of
        None \<Rightarrow> Inr JNull
      | Some [] \<Rightarrow> Inr JNull
      | Some (s0 # _) \<Rightarrow>
     (case chart_xAxis ch of
        [] \<Rightarrow> Inl (DriverError ''JavascriptException'')
      | x0 # _ \<Rightarrow>
          Inr (JObj (property ''times'' (axis_categories x0)
                     @ [(''values'', JArr (map point_data (series_points s0)))])))))"

text \<open>\<^verbatim>\<open>String.prototype.includes\<close>: whether \<open>sub\<close> occurs in \<open>s\<close>, character for character.\<close>

fun starts_with :: "string \<Rightarrow> string \<Rightarrow> bool" where
  "starts_with s [] = True"
| "starts_with [] (c # sub) = False"
| "starts_with (a # s) (c # sub) = (a = c \<and> starts_with s sub)"

fun str_includes :: "string \<Rightarrow> string \<Rightarrow> bool" where
  "str_includes [] sub = (sub = [])"
| "str_includes (a # s) sub = (starts_with (a # s) sub \<or> str_includes s sub)"

text \<open>
  \<^verbatim>\<open>rawData\<close> starts as \<^verbatim>\<open>{ opening: {}, closing: {} }\<close>. An assignment to a property
  replaces its value in place, or adds the property after the others.
\<close>

record raw =
  raw_opening :: "(string \<times> json) list"
  raw_closing :: "(string \<times> json) list"

definition phase_of :: "raw \<Rightarrow> string \<Rightarrow> (string \<times> json) list" where
  "phase_of rawData type_name = (if type_name = ''opening'' then raw_opening rawData else raw_closing rawData)"

definition assign :: "raw \<Rightarrow> string \<Rightarrow> string \<Rightarrow> json \<Rightarrow> raw" where
  "assign rawData type_name key v =
     (if type_name = ''opening''
      then rawData\<lparr>raw_opening := AList.update key v (raw_opening rawData)\<rparr>
      else rawData\<lparr>raw_closing := AList.update key v (raw_closing rawData)\<rparr>)"

definition header_type :: "string \<Rightarrow> string" where
  "header_type header = (if str_includes header ''Opening'' then ''opening'' else ''closing'')"

text \<open>The function given to \<^verbatim>\<open>headers.forEach\<close>; its state is \<^verbatim>\<open>rawData\<close> and \<^verbatim>\<open>chartIndex\<close>.\<close>

definition header_body :: "chart option list \<Rightarrow> string \<Rightarrow> raw \<times> nat \<Rightarrow> exn + raw \<times> nat" where
  "header_body highcharts header st =
     (let rawData = fst st; chartIndex = snd st; type_name = header_type header in
      and_then (extractSeriesData (at_index highcharts chartIndex)) (\<lambda>a.
      and_then (extractSeriesData (at_index highcharts (chartIndex + 1))) (\<lambda>b.
      and_then (extractSeriesData (at_index highcharts (chartIndex + 2))) (\<lambda>c.
        Inr (assign (assign (assign rawData type_name ''imbalance'' a)
                       type_name ''paired'' b)
                type_name ''price'' c,
             chartIndex + 3)))))"

definition extract_raw :: "page \<Rightarrow> exn + raw \<times> nat" where
  "extract_raw pg =
     for_each (header_body (charts pg)) (headers pg) (\<lparr>raw_opening = [], raw_closing = []\<rparr>, 0)"

text \<open>The value Python gets from \<^verbatim>\<open>json.loads\<close> of what the script returns.\<close>

definition raw_data_script :: "page \<Rightarrow> exn + json" where
  "raw_data_script pg =
     and_then (extract_raw pg) (\<lambda>st.
       Inr (JObj [(''opening'', JObj (raw_opening (fst st))), (''closing'', JObj (raw_closing (fst st)))]))"

text \<open>
  For stating what the script leaves in a phase: the three slots in the order the
  script assigns them, and the two contents a phase can have while the loop runs.
\<close>

definition slots :: "json \<Rightarrow> json \<Rightarrow> json \<Rightarrow> (string \<times> json) list" where
  "slots a b c = [(''imbalance'', a), (''paired'', b), (''price'', c)]"

definition slots_or_empty :: "(string \<times> json) list \<Rightarrow> bool" where
  "slots_or_empty p = (p = [] \<or> (\<exists>x y z. p = slots x y z))"

text \<open>
  A page for concrete runs: an opening and a closing heading and four charts, so that
  the closing phase finds one chart and two holes.
\<close>

definition example_chart :: "string \<Rightarrow> real \<Rightarrow> chart" where
  "example_chart t v =
     \<lparr>chart_series = Some [\<lparr>series_points = [\<lparr>point_y = Some (JNum v), point_dataLabel = None\<rparr>]\<rparr>],
      chart_xAxis = [\<lparr>axis_categories = Some (JArr [JStr t])\<rparr>]\<rparr>"

definition example_page :: page where
  "example_page =
     \<lparr>headers = [''Opening Auction Imbalance'', ''Closing Auction Imbalance''],
      charts = [Some (example_chart ''09:28:00'' 1000), Some (example_chart ''09:28:00'' 500),
                Some (example_chart ''09:28:00'' 25), Some (example_chart ''15:50:00'' 800)]\<rparr>"


section \<open>The scraper and the run\<close>

subsection \<open>The world outside the program\<close>

text \<open>
  The program acts on a file system and a browser. What they answer is a parameter of
  the model, one field per call of the source that can fail: \<open>None\<close> when the call
  returns, the exception when it raises. The calls on the browser are told apart by
  the number of pages the driver has been asked to load so far. The calls the program
  makes are recorded in order, with the log. \<open>sleep_raises\<close> is what \<^verbatim>\<open>time.sleep\<close>
  does on a delay that is not negative: it raises \<^verbatim>\<open>OverflowError\<close> on a delay too
  long for the clock of the platform.
\<close>

record world =
  makedirs_raises :: "exn option"
  install_raises :: "exn option"
  chrome_raises :: "exn option"
  get_raises :: "nat \<Rightarrow> string \<Rightarrow> exn option"
  until_raises :: "nat \<Rightarrow> exn option"
  sleep_raises :: "real \<Rightarrow> exn option"
  script_result :: "nat \<Rightarrow> exn + page"
  to_csv_raises :: "json list \<Rightarrow> exn option"
  quit_raises :: "exn option"

datatype effect =
    Makedirs
  | InstallDriver
  | StartChrome "string list"
  | Get string
  | Until
  | Sleep real
  | ExecuteScript
  | ToCsv "json list"
  | Quit

datatype level = INFO | WARNING | ERROR

datatype message =
    WebDriverInitialized
  | NavigationError exn
  | WebDriverClosed
  | ErrorClosing exn
  | FailedToNavigate string string
  | SavedConsolidatedData
  | ScrapingFailed exn

record state =
  timeout :: int
  retry_attempts :: int
  driver :: bool
  loads :: nat
  logger :: "(level \<times> message) list"
  effects :: "effect list"

definition fresh :: state where
  "fresh = \<lparr>timeout = 30, retry_attempts = 3, driver = False, loads = 0, logger = [], effects = []\<rparr>"

definition log_msg :: "level \<Rightarrow> message \<Rightarrow> state \<Rightarrow> state" where
  "log_msg lvl msg st = st\<lparr>logger := logger st @ [(lvl, msg)]\<rparr>"

text \<open>A call on the world: it is recorded, and it raises when the world says so.\<close>

definition call :: "effect \<Rightarrow> exn option \<Rightarrow> state \<Rightarrow> (exn + unit) \<times> state" where
  "call eff raises st =
     (case raises of None \<Rightarrow> Inr () | Some e \<Rightarrow> Inl e, st\<lparr>effects := effects st @ [eff]\<rparr>)"

text \<open>Sequencing of statements that change the state and can raise.\<close>

definition next_do ::
  "(exn + 'a) \<times> state \<Rightarrow> ('a \<Rightarrow> state \<Rightarrow> (exn + 'b) \<times> state) \<Rightarrow> (exn + 'b) \<times> state" where
  "next_do r f = (case fst r of Inl e \<Rightarrow> (Inl e, snd r) | Inr x \<Rightarrow> f x (snd r))"

fun for_each_st ::
  "('a \<Rightarrow> 'v \<Rightarrow> state \<Rightarrow> (exn + 'v) \<times> state) \<Rightarrow> 'a list \<Rightarrow> 'v \<Rightarrow> state \<Rightarrow> (exn + 'v) \<times> state" where
  "for_each_st body [] v st = (Inr v, st)"
| "for_each_st body (x # xs) v st =
     (case body x v st of
        (Inl e, st') \<Rightarrow> (Inl e, st')
      | (Inr v', st') \<Rightarrow> for_each_st body xs v' st')"

subsection \<open>\<^verbatim>\<open>AdvancedWebScraper\<close>\<close>

text \<open>\<^verbatim>\<open>str.lower\<close> on ASCII strings.\<close>

definition lower_char :: "char \<Rightarrow> char" where
  "lower_char c =
     (case map_of (zip ''ABCDEFGHIJKLMNOPQRSTUVWXYZ'' ''abcdefghijklmnopqrstuvwxyz'') c of
        None \<Rightarrow> c
      | Some l \<Rightarrow> l)"

definition lower :: "string \<Rightarrow> string" where
  "lower s = map lower_char s"

definition chrome_options :: "bool \<Rightarrow> string list" where
  "chrome_options headless =
     (if headless then [''--headless''] else [])
     @ [''--disable-gpu'', ''--no-sandbox'', ''--disable-dev-shm-usage'',
        ''--disable-extensions'', ''--start-maximized'',
        ''user-agent=Mozilla/5.0 (Windows NT 10.0; Win64; x64) AppleWebKit/537.36 (KHTML, like Gecko) Chrome/91.0.4472.124 Safari/537.36'']"

definition setup_webdriver :: "world \<Rightarrow> string \<Rightarrow> bool \<Rightarrow> state \<Rightarrow> (exn + unit) \<times> state" where
  "setup_webdriver w browser headless st =
     (if lower browser \<noteq> ''chrome'' then (Inl ValueError, st)
      else
        next_do (call InstallDriver (install_raises w) st) (\<lambda>_ st1.
        next_do (call (StartChrome (chrome_options headless)) (chrome_raises w) st1) (\<lambda>_ st2.
          (Inr (), log_msg INFO WebDriverInitialized (st2\<lparr>driver := True\<rparr>)))))"

text \<open>\<^verbatim>\<open>__init__\<close>: the attributes, the output directory, then \<^verbatim>\<open>_setup_webdriver\<close>.\<close>

definition init :: "world \<Rightarrow> string \<Rightarrow> bool \<Rightarrow> int \<Rightarrow> int \<Rightarrow> (exn + unit) \<times> state" where
  "init w browser headless timeout_s retries =
     next_do (call Makedirs (makedirs_raises w) (fresh\<lparr>timeout := timeout_s, retry_attempts := retries\<rparr>))
       (\<lambda>_ st1. setup_webdriver w browser headless st1)"

text \<open>
  The \<^verbatim>\<open>try\<close> block of \<^verbatim>\<open>navigate\<close>. A wait condition that is given is a callable, which
  Python takes for true. \<^verbatim>\<open>time.sleep\<close> raises \<^verbatim>\<open>ValueError\<close> on a negative delay; on
  any other delay the world decides.
\<close>

definition navigate_try ::
  "world \<Rightarrow> string \<Rightarrow> string option \<Rightarrow> real \<Rightarrow> state \<Rightarrow> (exn + bool) \<times> state" where
  "navigate_try w url wait_condition additional_wait st =
     (let n = loads st in
      next_do (call (Get url) (get_raises w n url) (st\<lparr>loads := n + 1\<rparr>)) (\<lambda>_ st1.
      next_do (case wait_condition of
                 None \<Rightarrow> (Inr (), st1)
               | Some c \<Rightarrow> call Until (until_raises w n) st1) (\<lambda>_ st2.
      next_do (call (Sleep additional_wait)
                 (if additional_wait < 0 then Some ValueError
                  else sleep_raises w additional_wait) st2) (\<lambda>_ st3.
        (Inr True, st3)))))"

text \<open>\<^verbatim>\<open>navigate\<close>: the handler \<^verbatim>\<open>except Exception\<close> logs the error and returns \<^verbatim>\<open>False\<close>.\<close>

definition navigate ::
  "world \<Rightarrow> string \<Rightarrow> string option \<Rightarrow> real \<Rightarrow> state \<Rightarrow> (exn + bool) \<times> state" where
  "navigate w url wait_condition additional_wait st =
     (case navigate_try w url wait_condition additional_wait st of
        (Inl e, st') \<Rightarrow> (Inr False, log_msg ERROR (NavigationError e) st')
      | (Inr ok, st') \<Rightarrow> (Inr ok, st'))"

text \<open>\<^verbatim>\<open>close\<close>: \<^verbatim>\<open>driver.quit()\<close> when there is a driver; its exception is logged.\<close>

definition close :: "world \<Rightarrow> state \<Rightarrow> (exn + unit) \<times> state" where
  "close w st =
     (case (if driver st then call Quit (quit_raises w) st else (Inr (), st)) of
        (Inl e, st') \<Rightarrow> (Inr (), log_msg ERROR (ErrorClosing e) st')
      | (Inr _, st') \<Rightarrow> (Inr (), log_msg INFO WebDriverClosed st'))"

subsection \<open>\<^verbatim>\<open>nyse_auction_scraper_example\<close>\<close>

definition request_url :: "string \<Rightarrow> string \<Rightarrow> string" where
  "request_url ticker date =
     ''https://www.nyse.com/nyse-auction-data?symbol='' @ ticker @ ''&date='' @ date"

definition highcharts_ready :: string where
  "highcharts_ready =
     ''return typeof Highcharts !== 'undefined' && Highcharts.charts.length > 0''"

text \<open>\<^verbatim>\<open>json.loads(scraper.driver.execute_script(raw_data_script))\<close> on the page loaded last.\<close>

definition execute_script :: "world \<Rightarrow> state \<Rightarrow> (exn + json) \<times> state" where
  "execute_script w st =
     (case script_result w (loads st) of
        Inl e \<Rightarrow> (Inl e, st\<lparr>effects := effects st @ [ExecuteScript]\<rparr>)
      | Inr pg \<Rightarrow> (raw_data_script pg, st\<lparr>effects := effects st @ [ExecuteScript]\<rparr>))"

text \<open>The body of the loop over the dates: one request.\<close>

definition date_body ::
  "world \<Rightarrow> string \<Rightarrow> string \<Rightarrow> json list \<Rightarrow> state \<Rightarrow> (exn + json list) \<times> state" where
  "date_body w ticker date all_data st =
     next_do (navigate w (request_url ticker date) (Some highcharts_ready) 3 st) (\<lambda>ok st1.
       if ok then
         next_do (execute_script w st1) (\<lambda>raw_data st2.
           (normalizer ticker date raw_data all_data, st2))
       else (Inr all_data, log_msg WARNING (FailedToNavigate ticker date) st1))"

definition ticker_body ::
  "world \<Rightarrow> string list \<Rightarrow> string \<Rightarrow> json list \<Rightarrow> state \<Rightarrow> (exn + json list) \<times> state" where
  "ticker_body w dates ticker all_data st = for_each_st (date_body w ticker) dates all_data st"

text \<open>The \<^verbatim>\<open>try\<close> block: the two loops, then the export and its log line.\<close>

definition scrape_try :: "world \<Rightarrow> string list \<Rightarrow> string list \<Rightarrow> state \<Rightarrow> (exn + unit) \<times> state" where
  "scrape_try w tickers dates st =
     next_do (for_each_st (ticker_body w dates) tickers [] st) (\<lambda>all_data st1.
     next_do (call (ToCsv all_data) (to_csv_raises w all_data) st1) (\<lambda>_ st2.
       (Inr (), log_msg INFO SavedConsolidatedData st2)))"

text \<open>
  The function: the scraper is built before the \<^verbatim>\<open>try\<close>, so its exception leaves the
  function; \<^verbatim>\<open>except Exception\<close> logs what the block raised; \<^verbatim>\<open>finally\<close> closes.
\<close>

definition nyse_auction_scraper_example ::
  "world \<Rightarrow> string list \<Rightarrow> string list \<Rightarrow> (exn + unit) \<times> state" where
  "nyse_auction_scraper_example w tickers dates =
     next_do (init w ''chrome'' False 30 3) (\<lambda>_ st0.
       (case scrape_try w tickers dates st0 of
          (Inl e, st1) \<Rightarrow> close w (log_msg ERROR (ScrapingFailed e) st1)
        | (Inr _, st1) \<Rightarrow> close w st1))"

text \<open>
  \<^verbatim>\<open>main\<close>, with its three constants as parameters of \<open>main_with\<close>: the dates are
  expanded before the scraper exists.
\<close>

definition main_with :: "world \<Rightarrow> string list \<Rightarrow> string \<Rightarrow> string \<Rightarrow> (exn + unit) \<times> state" where
  "main_with w tickers start_date end_date =
     (case get_weekdays start_date end_date of
        Inl e \<Rightarrow> (Inl e, fresh)
      | Inr dates \<Rightarrow> nyse_auction_scraper_example w tickers dates)"

definition main :: "world \<Rightarrow> (exn + unit) \<times> state" where
  "main w = main_with w [''A'', ''MMM'', ''WFC''] ''12-01-2024'' ''12-05-2024''"

text \<open>
  For stating what a run did: the requests in the order of the two loops (outer
  tickers, inner dates), the two loops as one loop over these requests, the data handed to \<^verbatim>\<open>to_csv\<close> in a trace, the calls of a
  trace that are not made on a page, and the pages requested.
\<close>

definition pairs :: "string list \<Rightarrow> string list \<Rightarrow> (string \<times> string) list" where
  "pairs tickers dates = concat (map (\<lambda>ticker. map (\<lambda>date. (ticker, date)) dates) tickers)"

definition pair_loop ::
  "world \<Rightarrow> (string \<times> string) list \<Rightarrow> json list \<Rightarrow> state \<Rightarrow> (exn + json list) \<times> state" where
  "pair_loop w ps all_data st = for_each_st (\<lambda>p. date_body w (fst p) (snd p)) ps all_data st"

fun exported :: "effect list \<Rightarrow> json list list" where
  "exported [] = []"
| "exported (ToCsv rows # es) = rows # exported es"
| "exported (_ # es) = exported es"

fun other_calls :: "effect list \<Rightarrow> effect list" where
  "other_calls [] = []"
| "other_calls (Get url # es) = other_calls es"
| "other_calls (Until # es) = other_calls es"
| "other_calls (Sleep t # es) = other_calls es"
| "other_calls (ExecuteScript # es) = other_calls es"
| "other_calls (e # es) = e # other_calls es"

fun requested :: "effect list \<Rightarrow> string list" where
  "requested [] = []"
| "requested (Get url # es) = url # requested es"
| "requested (_ # es) = requested es"

text \<open>
  Whether a call of \<^verbatim>\<open>navigate\<close> meets no exception: the page loads, the wait
  condition, when one is given, becomes true in time, the delay is not negative and
  the sleep returns.
  \<open>n\<close> is the number of pages loaded before.
\<close>

definition nav_ok :: "world \<Rightarrow> nat \<Rightarrow> string \<Rightarrow> string option \<Rightarrow> real \<Rightarrow> bool" where
  "nav_ok w n url wait_condition additional_wait =
     (get_raises w n url = None
      \<and> (case wait_condition of None \<Rightarrow> True | Some c \<Rightarrow> until_raises w n = None)
      \<and> 0 \<le> additional_wait \<and> sleep_raises w additional_wait = None)"

text \<open>A world in which no call raises and every page is empty, for concrete runs.\<close>

definition quiet_world :: world where
  "quiet_world =
     \<lparr>makedirs_raises = None, install_raises = None, chrome_raises = None,
      get_raises = (\<lambda>n url. None), until_raises = (\<lambda>n. None),
      sleep_raises = (\<lambda>t. None),
      script_result = (\<lambda>n. Inr \<lparr>headers = [], charts = []\<rparr>),
      to_csv_raises = (\<lambda>rows. None), quit_raises = None\<rparr>"

text \<open>A world in which the charts never become ready: every wait times out.\<close>

definition timeout_world :: world where
  "timeout_world = quiet_world\<lparr>until_raises := (\<lambda>n. Some (DriverError ''TimeoutException''))\<rparr>"

text \<open>
  Two worlds in which something fails after a page has loaded: the script raises in
  the page, and the export cannot write its file.
\<close>

definition script_error_world :: world where
  "script_error_world =
     quiet_world\<lparr>script_result := (\<lambda>n. Inl (DriverError ''JavascriptException''))\<rparr>"

definition export_error_world :: world where
  "export_error_world = quiet_world\<lparr>to_csv_raises := (\<lambda>rows. Some (IOError ''disk full''))\<rparr>"


section \<open>Properties of the date range expander\<close>

subsection \<open>The order on dates and the day after\<close>

lemma datetime_le_refl: "datetime_le a a"
  by (simp add: datetime_le_def)

lemma datetime_le_iff_not_less: "datetime_le a b \<longleftrightarrow> \<not> datetime_less b a"
  by (auto simp: datetime_le_def datetime_less_def)

lemma datetime_less_trans: "datetime_less a b \<Longrightarrow> datetime_less b c \<Longrightarrow> datetime_less a c"
  by (auto simp: datetime_less_def)

lemma datetime_less_le_trans: "datetime_less a b \<Longrightarrow> datetime_le b c \<Longrightarrow> datetime_less a c"
  by (auto simp: datetime_less_def datetime_le_def)

lemma datetime_le_cases: "datetime_le a b \<longleftrightarrow> datetime_less a b \<or> (year a = year b \<and> month a = month b \<and> day a = day b)"
  by (auto simp: datetime_less_def datetime_le_def)

lemma datetime_eqI: "year a = year b \<Longrightarrow> month a = month b \<Longrightarrow> day a = day b \<Longrightarrow> (a::datetime) = b"
  by simp

lemma days_in_month_bounds: "28 \<le> days_in_month y m" "days_in_month y m \<le> 31"
  by (simp_all add: days_in_month_def)

lemma add_one_day_valid:
  assumes "valid_date d" and "add_one_day d = Inr n"
  shows "valid_date n"
proof -
  have pos: "1 \<le> days_in_month y m" for y m
    using days_in_month_bounds(1) [of y m] by simp
  consider
      (day) "day d + 1 \<le> days_in_month (year d) (month d)" "n = d\<lparr>day := day d + 1\<rparr>"
    | (month) "month d + 1 \<le> 12" "n = d\<lparr>month := month d + 1, day := 1\<rparr>"
    | (year) "year d + 1 \<le> MAXYEAR" "n = \<lparr>year = year d + 1, month = 1, day = 1\<rparr>"
    using assms(2) by (auto simp: add_one_day_def split: if_splits)
  then show ?thesis
  proof cases
    case day
    with assms(1) show ?thesis by (simp add: valid_date_def)
  next
    case month
    with assms(1) pos show ?thesis by (simp add: valid_date_def)
  next
    case year
    with assms(1) pos show ?thesis by (simp add: valid_date_def MINYEAR_def)
  qed
qed

lemma add_one_day_less:
  assumes "add_one_day d = Inr n"
  shows "datetime_less d n"
  using assms
  by (auto simp: add_one_day_def datetime_less_def split: if_splits)

lemma add_one_day_successor:
  assumes "valid_date c" and "valid_date d" and "add_one_day c = Inr n"
  shows "datetime_less c d \<longleftrightarrow> datetime_le n d"
  using assms
  by (auto simp: add_one_day_def valid_date_def datetime_less_def datetime_le_def
           split: if_splits)

lemma add_one_day_overflow:
  assumes "valid_date d"
  shows "add_one_day d = Inl e \<longleftrightarrow>
         e = OverflowError \<and> d = \<lparr>year = 9999, month = 12, day = 31\<rparr>"
  using assms
  by (auto simp: add_one_day_def valid_date_def days_in_month_def MINYEAR_def MAXYEAR_def
           split: if_splits)


lemma strptime_error: "strptime s = Inl e \<Longrightarrow> e = ValueError"
  by (auto simp: strptime_def split: option.splits prod.splits if_splits)

lemma strptime_valid: "strptime s = Inr d \<Longrightarrow> valid_date d"
  by (auto simp: strptime_def split: option.splits prod.splits if_splits)

declare weekdays_loop.simps [simp del]

lemma weekdays_loop_done:
  "\<not> datetime_le c e \<Longrightarrow> weekdays_loop c e w = Inr w"
  by (subst weekdays_loop.simps) simp

lemma weekdays_loop_step:
  "datetime_le c e \<Longrightarrow> add_one_day c = Inr n \<Longrightarrow>
   weekdays_loop c e w =
     weekdays_loop n e (if weekday c < 5 then w @ [strftime c] else w)"
  by (subst weekdays_loop.simps) simp

lemma weekdays_loop_raise:
  "datetime_le c e \<Longrightarrow> add_one_day c = Inl x \<Longrightarrow> weekdays_loop c e w = Inl x"
  by (subst weekdays_loop.simps) simp

lemma weekdays_loop_enumerates:
  "valid_date c \<Longrightarrow> valid_date e \<Longrightarrow> e \<noteq> last_day \<Longrightarrow>
   \<exists>ds. weekdays_loop c e w = Inr (w @ map strftime ds)
        \<and> sorted_wrt datetime_less ds \<and> set ds = wanted c e"
proof (induction c e w rule: weekdays_loop.induct)
  case (1 c e w)
  show ?case
  proof (cases "datetime_le c e")
    case False
    have "wanted c e = {}"
    proof -
      have "\<not> (datetime_le c d \<and> datetime_le d e)" for d
        using False by (auto simp: datetime_le_def)
      then show ?thesis by (auto simp: wanted_def)
    qed
    with False show ?thesis
      by (simp add: weekdays_loop_done)
  next
    case True
    have "c \<noteq> last_day"
    proof
      assume "c = last_day"
      with True "1.prems"(2,3) show False
        by (auto simp: datetime_le_def last_day_def valid_date_def days_in_month_def MAXYEAR_def)
    qed
    then obtain n where n: "add_one_day c = Inr n"
      using add_one_day_overflow [OF "1.prems"(1)]
      by (cases "add_one_day c") (auto simp: last_day_def)
    have vn: "valid_date n"
      using add_one_day_valid [OF "1.prems"(1) n] .
    let ?w = "if weekday c < 5 then w @ [strftime c] else w"
    from "1.IH" [OF True n vn "1.prems"(2,3)]
    obtain ds where ds: "weekdays_loop n e ?w = Inr (?w @ map strftime ds)"
      "sorted_wrt datetime_less ds" "set ds = wanted n e"
      by blast
    have split: "{d. valid_date d \<and> datetime_le c d \<and> datetime_le d e}
                 = insert c {d. valid_date d \<and> datetime_le n d \<and> datetime_le d e}"
    proof -
      have "datetime_le c d \<longleftrightarrow> d = c \<or> datetime_le n d" if "valid_date d" for d
        using add_one_day_successor [OF "1.prems"(1) that n]
        by (auto simp: datetime_le_cases)
      then show ?thesis
        using True "1.prems"(1) by (auto simp: datetime_le_refl)
    qed
    have after: "datetime_less c d" if "d \<in> set ds" for d
      using that ds(3) add_one_day_less [OF n]
      by (auto simp: wanted_def intro: datetime_less_le_trans)
    have notin: "c \<notin> wanted n e"
      using add_one_day_less [OF n] by (auto simp: wanted_def datetime_le_iff_not_less)
    show ?thesis
    proof (cases "weekday c < 5")
      case wd: True
      have "wanted c e = insert c (wanted n e)"
        using split wd by (auto simp: wanted_def)
      then show ?thesis
        using ds after wd weekdays_loop_step [OF True n, of w]
        by (intro exI [of _ "c # ds"]) simp
    next
      case wd: False
      have "wanted c e = wanted n e"
        using split wd by (auto simp: wanted_def)
      then show ?thesis
        using ds wd weekdays_loop_step [OF True n, of w]
        by (intro exI [of _ ds]) simp
    qed
  qed
qed

lemma weekdays_loop_last_day:
  "valid_date c \<Longrightarrow> datetime_le c last_day \<Longrightarrow> weekdays_loop c last_day w = Inl OverflowError"
proof (induction c last_day w rule: weekdays_loop.induct)
  case (1 c w)
  show ?case
  proof (cases "add_one_day c")
    case (Inl x)
    then show ?thesis
      using "1.prems" add_one_day_overflow [OF "1.prems"(1), of x]
      by (simp add: weekdays_loop_raise)
  next
    case (Inr n)
    have vn: "valid_date n"
      using add_one_day_valid [OF "1.prems"(1) Inr] .
    have "datetime_le n last_day"
      using vn by (auto simp: datetime_le_def last_day_def valid_date_def days_in_month_def MAXYEAR_def split: if_splits)
    then show ?thesis
      using "1.hyps" [OF "1.prems"(2) Inr vn] weekdays_loop_step [OF "1.prems"(2) Inr, of w]
      by simp
  qed
qed

subsection \<open>A printed date parses back\<close>

lemma digit_char_digit:
  assumes "k < 10"
  shows "is_digit (digit_char k)" and "digit_val (digit_char k) = k"
proof -
  from assms have "k = 0 \<or> k = 1 \<or> k = 2 \<or> k = 3 \<or> k = 4 \<or> k = 5 \<or> k = 6 \<or> k = 7
      \<or> k = 8 \<or> k = 9"
    by arith
  then show "is_digit (digit_char k)" and "digit_val (digit_char k) = k"
    by (auto simp: is_digit_def digit_char_def digit_val_def)
qed

lemma four_digits:
  fixes y :: nat
  assumes "y < 10000"
  shows "1000 * (y div 1000 mod 10) + 100 * (y div 100 mod 10) + 10 * (y div 10 mod 10) + y mod 10 = y"
proof -
  have a: "y = 10 * (y div 10) + y mod 10" by simp
  have b': "y div 10 div 10 = y div 100"
    using div_mult2_eq [of y 10 10] by simp
  have b: "y div 10 = 10 * (y div 100) + y div 10 mod 10"
    using div_mult_mod_eq [of "y div 10" 10] unfolding b' by simp
  have c': "y div 100 div 10 = y div 1000"
    using div_mult2_eq [of y 100 10] by simp
  have c: "y div 100 = 10 * (y div 1000) + y div 100 mod 10"
    using div_mult_mod_eq [of "y div 100" 10] unfolding c' by simp
  have d: "y div 1000 mod 10 = y div 1000"
    using assms by simp
  define q1 q2 q3 r0 r1 r2 where "q1 = y div 10" and "q2 = y div 100" and "q3 = y div 1000"
    and "r0 = y mod 10" and "r1 = y div 10 mod 10" and "r2 = y div 100 mod 10"
  have "y = 10 * q1 + r0" "q1 = 10 * q2 + r1" "q2 = 10 * q3 + r2"
    using a b c by (simp_all only: q1_def q2_def q3_def r0_def r1_def r2_def)
  then have "1000 * q3 + 100 * r2 + 10 * r1 + r0 = y" by simp
  then show ?thesis
    by (simp only: d q3_def r0_def r1_def r2_def)
qed

lemma match_Y_pad4:
  assumes "y < 10000"
  shows "match_Y (pad4 y @ rest) = Some (y, rest)"
proof -
  define k3 k2 k1 k0 where "k3 = y div 1000 mod 10" and "k2 = y div 100 mod 10"
    and "k1 = y div 10 mod 10" and "k0 = y mod 10"
  have lt: "k3 < 10" "k2 < 10" "k1 < 10" "k0 < 10"
    by (simp_all add: k3_def k2_def k1_def k0_def)
  have p: "pad4 y = [digit_char k3, digit_char k2, digit_char k1, digit_char k0]"
    by (simp only: pad4_def k3_def k2_def k1_def k0_def)
  have v: "1000 * k3 + 100 * k2 + 10 * k1 + k0 = y"
    using four_digits [OF assms] by (simp only: k3_def k2_def k1_def k0_def)
  show ?thesis
    by (simp add: p digit_char_digit [OF lt(1)] digit_char_digit [OF lt(2)]
          digit_char_digit [OF lt(3)] digit_char_digit [OF lt(4)] v)
qed

lemma match_m_pad2:
  assumes "1 \<le> m" and "m \<le> 12"
  shows "match_m (pad2 m @ rest) = Some (m, rest)"
proof -
  from assms have "m = 1 \<or> m = 2 \<or> m = 3 \<or> m = 4 \<or> m = 5 \<or> m = 6 \<or> m = 7 \<or> m = 8
      \<or> m = 9 \<or> m = 10 \<or> m = 11 \<or> m = 12"
    by arith
  then show ?thesis
    by (elim disjE) (simp_all add: pad2_def digit_char_def digit_val_def)
qed

lemma match_d_pad2:
  assumes "1 \<le> d" and "d \<le> 31"
  shows "match_d (pad2 d @ rest) = Some (d, rest)"
proof -
  from assms have "d = 1 \<or> d = 2 \<or> d = 3 \<or> d = 4 \<or> d = 5 \<or> d = 6 \<or> d = 7 \<or> d = 8
      \<or> d = 9 \<or> d = 10 \<or> d = 11 \<or> d = 12 \<or> d = 13 \<or> d = 14 \<or> d = 15 \<or> d = 16
      \<or> d = 17 \<or> d = 18 \<or> d = 19 \<or> d = 20 \<or> d = 21 \<or> d = 22 \<or> d = 23 \<or> d = 24
      \<or> d = 25 \<or> d = 26 \<or> d = 27 \<or> d = 28 \<or> d = 29 \<or> d = 30 \<or> d = 31"
    by arith
  then show ?thesis
    by (elim disjE) (simp_all add: pad2_def digit_char_def digit_val_def is_digit_def)
qed

lemma strptime_strftime:
  assumes "valid_date d" and "1000 \<le> year d"
  shows "strptime (strftime d) = Inr d"
proof -
  from assms have m: "1 \<le> month d" "month d \<le> 12" and dd: "1 \<le> day d" "day d \<le> 31"
    and y: "year d < 10000"
    using days_in_month_bounds(2) [of "year d" "month d"]
    by (auto simp: valid_date_def MAXYEAR_def)
  have 1: "match_m (pad2 (month d) @ CHR ''-'' # pad2 (day d) @ CHR ''-'' # pad4 (year d))
             = Some (month d, CHR ''-'' # pad2 (day d) @ CHR ''-'' # pad4 (year d))"
    by (rule match_m_pad2 [OF m])
  have 2: "match_d (pad2 (day d) @ CHR ''-'' # pad4 (year d))
             = Some (day d, CHR ''-'' # pad4 (year d))"
    by (rule match_d_pad2 [OF dd])
  have 3: "match_Y (pad4 (year d)) = Some (year d, [])"
    using match_Y_pad4 [OF y, of "[]"] by simp
  have r: "\<lparr>year = year d, month = month d, day = day d\<rparr> = d"
    by (cases d) simp
  show ?thesis
    using assms(1) by (simp add: strptime_def strftime_def 1 2 3 r)
qed

subsection \<open>The day after is the next ordinal, and the next day of the week\<close>

lemma div_step:
  fixes y :: nat
  assumes "1 \<le> y"
  shows "y div k = (y - 1) div k + (if y mod k = 0 then 1 else 0)"
proof -
  from assms obtain x where "y = Suc x" by (cases y) auto
  then show ?thesis by (simp add: div_Suc)
qed

lemma days_before_year_Suc:
  assumes "1 \<le> y"
  shows "days_before_year (Suc y) = days_before_year y + (if is_leap y then 366 else 365)"
proof -
  define a b c where "a = (y - 1) div 4" and "b = (y - 1) div 100" and "c = (y - 1) div 400"
  have le: "b \<le> a"
    unfolding a_def b_def by (rule div_le_mono2) simp_all
  have m: "y mod 100 = 0 \<Longrightarrow> y mod 4 = 0" "y mod 400 = 0 \<Longrightarrow> y mod 100 = 0"
    by (auto simp: mod_eq_0_iff_dvd elim: dvd_trans [rotated])
  have d4: "y div 4 = a + (if y mod 4 = 0 then 1 else 0)"
    and d100: "y div 100 = b + (if y mod 100 = 0 then 1 else 0)"
    and d400: "y div 400 = c + (if y mod 400 = 0 then 1 else 0)"
    unfolding a_def b_def c_def by (rule div_step [OF assms])+
  have y: "y * 365 = (y - 1) * 365 + 365"
    using assms by (cases y) simp_all
  have l: "days_before_year (Suc y) = y * 365 + y div 4 - y div 100 + y div 400"
    by (simp add: days_before_year_def)
  have r: "days_before_year y = (y - 1) * 365 + a - b + c"
    by (simp add: days_before_year_def a_def b_def c_def)
  show ?thesis
    unfolding l r d4 d100 d400 y is_leap_def
    using le m by auto
qed


lemma days_before_month_Suc:
  assumes "1 \<le> m" and "m \<le> 11"
  shows "days_before_month y (Suc m) = days_before_month y m + days_in_month y m"
proof -
  from assms have "m = 1 \<or> m = 2 \<or> m = 3 \<or> m = 4 \<or> m = 5 \<or> m = 6 \<or> m = 7 \<or> m = 8
      \<or> m = 9 \<or> m = 10 \<or> m = 11"
    by arith
  then show ?thesis
    by (elim disjE) (simp_all add: days_before_month_def days_in_month_def eval_nat_numeral)
qed

lemma days_before_month_first: "days_before_month y (Suc 0) = 0"
  by (simp add: days_before_month_def)

lemma days_before_month_december:
  "days_before_month y 12 = (if is_leap y then 335 else 334)"
  by (simp add: days_before_month_def)

lemma ymd_to_ord_add_one_day:
  assumes v: "valid_date d" and n: "add_one_day d = Inr n"
  shows "ymd_to_ord n = ymd_to_ord d + 1"
proof -
  from v have b: "1 \<le> year d" "1 \<le> month d" "month d \<le> 12"
    "day d \<le> days_in_month (year d) (month d)"
    by (simp_all add: valid_date_def MINYEAR_def)
  show ?thesis
  proof (cases "day d + 1 \<le> days_in_month (year d) (month d)")
    case True
    with n have "n = d\<lparr>day := day d + 1\<rparr>" by (simp add: add_one_day_def)
    then show ?thesis by (simp add: ymd_to_ord_def)
  next
    case False
    with b(4) have last: "day d = days_in_month (year d) (month d)" by simp
    show ?thesis
    proof (cases "month d + 1 \<le> 12")
      case True
      with n False have "n = d\<lparr>month := month d + 1, day := 1\<rparr>"
        by (simp add: add_one_day_def)
      moreover from True have "month d \<le> 11" by simp
      ultimately show ?thesis
        using days_before_month_Suc [OF b(2), of "year d"] last
        by (simp add: ymd_to_ord_def)
    next
      case december: False
      with b(3) have m12: "month d = 12" by simp
      with n False have "n = \<lparr>year = year d + 1, month = 1, day = 1\<rparr>"
        by (simp add: add_one_day_def split: if_splits)
      moreover from last m12 have "day d = 31" by (simp add: days_in_month_def)
      ultimately show ?thesis
        using days_before_year_Suc [OF b(1)] days_before_month_december [of "year d"] m12
        by (simp add: ymd_to_ord_def days_before_month_first)
    qed
  qed
qed

lemma weekday_add_one_day:
  assumes "valid_date d" and "add_one_day d = Inr n"
  shows "weekday n = (weekday d + 1) mod 7"
  using ymd_to_ord_add_one_day [OF assms]
  by (simp add: weekday_def mod_Suc_eq)

subsection \<open>What \<^verbatim>\<open>get_weekdays\<close> returns and when it raises\<close>

lemma weekdays_loop_no_ValueError:
  assumes "valid_date c" and "valid_date e"
  shows "weekdays_loop c e w \<noteq> Inl ValueError"
proof (cases "e = last_day")
  case True
  show ?thesis
  proof (cases "datetime_le c e")
    case le: True
    then show ?thesis
      using weekdays_loop_last_day [OF assms(1), of w] True by simp
  next
    case False
    then show ?thesis
      by (simp add: weekdays_loop_done)
  qed
next
  case False
  from weekdays_loop_enumerates [OF assms False, of w] show ?thesis by auto
qed

lemma get_weekdays_parsed:
  "strptime start_date = Inr start \<Longrightarrow> strptime end_date = Inr end_d \<Longrightarrow>
   get_weekdays start_date end_date = weekdays_loop start end_d []"
  by (simp add: get_weekdays_def)

lemmas date_eval =
  get_weekdays_def strptime_def is_digit_def digit_val_def valid_date_def days_in_month_def
  MINYEAR_def MAXYEAR_def is_leap_def weekday_def ymd_to_ord_def days_before_year_def
  days_before_month_def strftime_def pad2_def pad4_def digit_char_def add_one_day_def
  datetime_le_def datetime_less_def weekdays_loop.simps

text \<open>
  Claim C3 says that the expander fails exactly when \<open>start\<close> is not parseable or
  \<open>end < start\<close>. The code has no check of the order of the two dates: an inverted
  range makes the loop run zero times. Here both dates parse, the end is before the
  start, and the result is the empty list.
\<close>

theorem inverted_range_counterexample:
  "strptime ''12-05-2024'' = Inr \<lparr>year = 2024, month = 12, day = 5\<rparr>
   \<and> strptime ''12-01-2024'' = Inr \<lparr>year = 2024, month = 12, day = 1\<rparr>
   \<and> datetime_less \<lparr>year = 2024, month = 12, day = 1\<rparr> \<lparr>year = 2024, month = 12, day = 5\<rparr>
   \<and> get_weekdays ''12-05-2024'' ''12-01-2024'' = Inr []"
  by (simp add: date_eval)

text \<open>
  Claim C3, as amended: \<^verbatim>\<open>get_weekdays\<close> raises \<^verbatim>\<open>ValueError\<close> exactly when the start date
  or the end date is not parseable as \<^verbatim>\<open>%m-%d-%Y\<close>; when both parse and the end is
  before the start it raises nothing and returns the empty list; and in \<^verbatim>\<open>main\<close> an
  exception of \<^verbatim>\<open>get_weekdays\<close> leaves the program before the scraper exists, so before
  any call on the browser.
\<close>

theorem get_weekdays_ValueError_iff:
  "(get_weekdays start_date end_date = Inl ValueError
      \<longleftrightarrow> strptime start_date = Inl ValueError \<or> strptime end_date = Inl ValueError)
   \<and> (\<forall>start end_d. strptime start_date = Inr start \<and> strptime end_date = Inr end_d
          \<and> datetime_less end_d start
        \<longrightarrow> get_weekdays start_date end_date = Inr [])
   \<and> (\<forall>e. get_weekdays start_date end_date = Inl e
        \<longrightarrow> main_with w tickers start_date end_date = (Inl e, fresh) \<and> effects fresh = [])"
proof (intro conjI allI impI)
  show "get_weekdays start_date end_date = Inl ValueError
      \<longleftrightarrow> strptime start_date = Inl ValueError \<or> strptime end_date = Inl ValueError"
  proof (cases "strptime start_date")
    case (Inl x)
    then have "x = ValueError" by (rule strptime_error)
    with Inl show ?thesis by (simp add: get_weekdays_def)
  next
    case a: (Inr start)
    show ?thesis
    proof (cases "strptime end_date")
      case (Inl x)
      then have "x = ValueError" by (rule strptime_error)
      with a Inl show ?thesis by (simp add: get_weekdays_def)
    next
      case b: (Inr end_d)
      have "weekdays_loop start end_d [] \<noteq> Inl ValueError"
        using weekdays_loop_no_ValueError strptime_valid [OF a] strptime_valid [OF b] by blast
      with a b show ?thesis by (simp add: get_weekdays_def)
    qed
  qed
next
  fix start end_d
  assume h: "strptime start_date = Inr start \<and> strptime end_date = Inr end_d
               \<and> datetime_less end_d start"
  then have "\<not> datetime_le start end_d" by (simp add: datetime_le_iff_not_less)
  with h show "get_weekdays start_date end_date = Inr []"
    by (simp add: get_weekdays_def weekdays_loop_done)
next
  fix e
  assume "get_weekdays start_date end_date = Inl e"
  then show "main_with w tickers start_date end_date = (Inl e, fresh)"
    by (simp add: main_with_def)
next
  show "effects fresh = []" by (simp add: fresh_def)
qed

text \<open>
  The three parts at concrete inputs: a month 13, an inverted range, and \<^verbatim>\<open>main\<close> on
  the month 13.
\<close>

theorem get_weekdays_ValueError_iff_witness:
  "get_weekdays ''13-01-2024'' ''12-05-2024'' = Inl ValueError
   \<and> get_weekdays ''12-05-2024'' ''12-01-2024'' = Inr []
   \<and> main_with quiet_world [''A''] ''13-01-2024'' ''12-05-2024'' = (Inl ValueError, fresh)"
proof -
  have bad: "strptime ''13-01-2024'' = Inl ValueError"
    by (simp add: strptime_def)
  have s: "strptime ''12-05-2024'' = Inr \<lparr>year = 2024, month = 12, day = 5\<rparr>"
    and e: "strptime ''12-01-2024'' = Inr \<lparr>year = 2024, month = 12, day = 1\<rparr>"
    by (simp_all add: date_eval)
  have inv: "datetime_less \<lparr>year = 2024, month = 12, day = 1\<rparr> \<lparr>year = 2024, month = 12, day = 5\<rparr>"
    by (simp add: datetime_less_def)
  note t1 = get_weekdays_ValueError_iff [of "''13-01-2024''" "''12-05-2024''" quiet_world "[''A'']"]
  note t2 = get_weekdays_ValueError_iff [of "''12-05-2024''" "''12-01-2024''" quiet_world "[''A'']"]
  have 1: "get_weekdays ''13-01-2024'' ''12-05-2024'' = Inl ValueError"
    using t1 bad by blast
  have 2: "get_weekdays ''12-05-2024'' ''12-01-2024'' = Inr []"
    using t2 s e inv by blast
  have 3: "main_with quiet_world [''A''] ''13-01-2024'' ''12-05-2024'' = (Inl ValueError, fresh)"
    using t1 1 by blast
  from 1 2 3 show ?thesis by blast
qed

text \<open>
  Claim C4 says that every valid pair with \<open>start <= end\<close> yields the weekdays of the
  range. On the last day a \<^verbatim>\<open>datetime\<close> can hold, a Friday, the loop appends the date
  and then steps \<^verbatim>\<open>current\<close> past it, which raises \<^verbatim>\<open>OverflowError\<close>: the function
  raises where the claim promises the one date.
\<close>

theorem get_weekdays_last_day_overflow:
  "strptime ''12-31-9999'' = Inr last_day
   \<and> datetime_le last_day last_day
   \<and> weekday last_day = 4
   \<and> get_weekdays ''12-31-9999'' ''12-31-9999'' = Inl OverflowError"
  by (simp add: date_eval last_day_def)

text \<open>
  For every other pair of parseable dates, the start in year 1000 or later, the claim
  holds: the result is the dates wanted from the range, each exactly once, in strictly
  ascending order, printed with \<^verbatim>\<open>strftime\<close> in a form that parses back to the date. An
  inverted range wants no date.
\<close>

theorem get_weekdays_enumerates:
  assumes "strptime start_date = Inr start" and "strptime end_date = Inr end_d"
    and "end_d \<noteq> last_day" and "1000 \<le> year start"
  shows "\<exists>ds. get_weekdays start_date end_date = Inr (map strftime ds)
            \<and> sorted_wrt datetime_less ds \<and> set ds = wanted start end_d
            \<and> list_all (\<lambda>d. strptime (strftime d) = Inr d) ds"
proof -
  from weekdays_loop_enumerates [OF strptime_valid [OF assms(1)] strptime_valid [OF assms(2)]
      assms(3), of "[]"]
  obtain ds where ds: "weekdays_loop start end_d [] = Inr ([] @ map strftime ds)"
    "sorted_wrt datetime_less ds" "set ds = wanted start end_d"
    by blast
  have "list_all (\<lambda>d. strptime (strftime d) = Inr d) ds"
    unfolding list_all_iff
  proof
    fix d assume "d \<in> set ds"
    with ds(3) have v: "valid_date d" and le: "datetime_le start d"
      by (simp_all add: wanted_def)
    from le assms(4) have "1000 \<le> year d"
      by (auto simp: datetime_le_def)
    with v show "strptime (strftime d) = Inr d"
      by (rule strptime_strftime)
  qed
  with ds assms(1,2) show ?thesis
    by (auto simp: get_weekdays_def)
qed

text \<open>The two scenarios of the specification: a single Monday, and a weekend.\<close>

theorem get_weekdays_scenarios:
  "get_weekdays ''12-02-2024'' ''12-02-2024'' = Inr [''12-02-2024'']
   \<and> get_weekdays ''12-07-2024'' ''12-08-2024'' = Inr []"
  by (simp add: date_eval)

section \<open>Properties of the record normalizer\<close>

subsection \<open>What the loops compute on a bundle of the expected shape\<close>

lemma and_then_Inr [simp]: "and_then (Inr x) f = f x"
  by (simp add: and_then_def)

lemma and_then_Inl [simp]: "and_then (Inl e) f = Inl e"
  by (simp add: and_then_def)

lemma for_each_append:
  "for_each body (xs @ ys) s = and_then (for_each body xs s) (for_each body ys)"
  by (induction xs arbitrary: s) (auto split: sum.splits)

lemma lookup_JObj [simp]: "lookup (JObj kvs) key = map_of kvs key"
  by (simp add: lookup_def)

lemma lookup_Some_getitem: "lookup j key = Some v \<Longrightarrow> getitem j key = Inr v"
  by (cases j) (auto simp: lookup_def)

lemma is_point_getitem:
  assumes "is_point v"
  shows "getitem v ''y'' = Inr (field v ''y'')" and "getitem v ''label'' = Inr (field v ''label'')"
  using assms by (cases v; auto simp: is_point_def field_def lookup_def)+

lemma zip_loop_records:
  "list_all is_point (map snd tvs) \<Longrightarrow>
   for_each (append_record ticker date auction_type metric_name) tvs all_data
     = Inr (all_data @ map (record_of ticker date auction_type metric_name) tvs)"
proof (induction tvs arbitrary: all_data)
  case Nil
  then show ?case by simp
next
  case (Cons tv tvs)
  then have "is_point (snd tv)" by simp
  then have "append_record ticker date auction_type metric_name tv all_data
               = Inr (all_data @ [record_of ticker date auction_type metric_name tv])"
    by (simp add: append_record_def record_of_def is_point_getitem)
  with Cons show ?case by simp
qed

lemma falsy_no_series:
  "\<not> truthy s \<Longrightarrow> (case (lookup s ''times'', lookup s ''values'') of
        (Some (JArr ts), Some (JArr vs)) \<Rightarrow> Some (ts, vs)
      | _ \<Rightarrow> None) = None"
  by (cases s) (auto simp: lookup_def)

lemma metric_body_records:
  assumes phase: "lookup raw_data auction_type = Some (JObj p)"
    and slot: "is_slot (map_of p metric)"
  shows "metric_body ticker date raw_data auction_type metric all_data
           = Inr (all_data @ group_records ticker date raw_data (auction_type, metric))"
proof (cases "map_of p metric")
  case None
  then show ?thesis
    using phase
    by (simp add: metric_body_def lookup_Some_getitem group_records_def series_at_def)
next
  case (Some s)
  show ?thesis
  proof (cases "truthy s")
    case False
    then show ?thesis
      using phase Some falsy_no_series [OF False]
      by (simp add: metric_body_def lookup_Some_getitem group_records_def series_at_def)
  next
    case True
    with slot Some have "is_series s" by (simp add: is_slot_def)
    then obtain ts vs where s: "lookup s ''times'' = Some (JArr ts)"
        "lookup s ''values'' = Some (JArr vs)" "list_all is_point vs"
      by (auto simp: is_series_def split: option.splits json.splits)
    have pts: "list_all is_point (map snd (zip ts vs))"
      using s(3) by (auto simp: list_all_iff dest: set_zip_rightD)
    show ?thesis
      using phase Some True s(1,2) zip_loop_records [OF pts]
      by (simp add: metric_body_def lookup_Some_getitem group_records_def series_at_def)
  qed
qed

lemma auction_type_body_records:
  assumes phase: "lookup raw_data auction_type = Some ph" and ok: "is_phase ph"
  shows "auction_type_body ticker date raw_data auction_type all_data
           = Inr (all_data @ concat (map (\<lambda>metric. group_records ticker date raw_data (auction_type, metric))
                                      [''imbalance'', ''paired'', ''price'']))"
proof -
  from ok obtain p where p: "ph = JObj p"
    and slots: "is_slot (map_of p ''imbalance'')" "is_slot (map_of p ''paired'')" "is_slot (map_of p ''price'')"
    by (cases ph) (auto simp: is_phase_def)
  note mb = metric_body_records [OF phase [unfolded p]]
  show ?thesis
  proof (cases "p = []")
    case True
    then show ?thesis
      using phase p
      by (simp add: auction_type_body_def lookup_Some_getitem group_records_def series_at_def)
  next
    case False
    then show ?thesis
      using phase p slots
      by (simp add: auction_type_body_def lookup_Some_getitem mb)
  qed
qed

lemma normalizer_records:
  assumes "is_bundle raw_data"
  shows "normalizer ticker date raw_data all_data
           = Inr (all_data @ concat (map (group_records ticker date raw_data) groups))"
proof -
  from assms obtain po pc where
    po: "lookup raw_data ''opening'' = Some po" "is_phase po" and
    pc: "lookup raw_data ''closing'' = Some pc" "is_phase pc"
    by (auto simp: is_bundle_def split: option.splits)
  show ?thesis
    by (simp add: normalizer_def groups_def
          auction_type_body_records [OF po] auction_type_body_records [OF pc])
qed

subsection \<open>The records of a group within the output\<close>

lemma in_group_record_of:
  "in_group g (record_of ticker date auction_type metric_name tv)
     \<longleftrightarrow> auction_type = fst g \<and> metric_name = metric_name_of (snd g)"
  by (auto simp: in_group_def record_of_def)

lemma metric_names:
  "metric_name_of ''imbalance'' = ''imbalance''"
  "metric_name_of ''paired'' = ''paired_quantity''"
  "metric_name_of ''price'' = ''clearing_price''"
  by (simp_all add: metric_name_of_def)

lemma in_groups:
  "g \<in> set groups \<longleftrightarrow>
     (fst g = ''opening'' \<or> fst g = ''closing'')
     \<and> (snd g = ''imbalance'' \<or> snd g = ''paired'' \<or> snd g = ''price'')"
  by (cases g) (auto simp: groups_def)

lemma groups_names_inj:
  assumes "g \<in> set groups" and "g' \<in> set groups"
    and "fst g' = fst g" and "metric_name_of (snd g') = metric_name_of (snd g)"
  shows "g' = g"
proof -
  have "snd g' = snd g"
    using assms(1,2,4) unfolding in_groups
    by (elim conjE disjE) (simp_all add: metric_names)
  with assms(3) show ?thesis by (simp add: prod_eq_iff)
qed

lemma distinct_groups: "distinct groups"
  by (simp add: groups_def)

lemma group_records_in_group:
  "list_all (in_group g) (group_records ticker date raw_data g)"
  by (auto simp: group_records_def list_all_iff in_group_record_of split: option.splits)

lemma group_records_other_group:
  assumes "g \<in> set groups" and "g' \<in> set groups" and "g' \<noteq> g"
  shows "list_all (\<lambda>r. \<not> in_group g r) (group_records ticker date raw_data g')"
  using groups_names_inj [OF assms(1,2)] assms(3)
  by (auto simp: group_records_def list_all_iff in_group_record_of split: option.splits)

lemma concat_other_groups:
  assumes "g \<in> set groups" and "set gs \<subseteq> set groups" and "g \<notin> set gs"
  shows "list_all (\<lambda>r. \<not> in_group g r) (concat (map (group_records ticker date raw_data) gs))"
  using assms(2,3)
proof (induction gs)
  case Nil
  then show ?case by simp
next
  case (Cons g' gs)
  then have "g' \<in> set groups" "g' \<noteq> g" by auto
  from group_records_other_group [OF assms(1) this] Cons show ?case by simp
qed

lemma normalizer_block:
  assumes b: "is_bundle raw_data" and g: "g \<in> set groups"
  shows "\<exists>before after.
           normalizer ticker date raw_data all_data
             = Inr (all_data @ before @ group_records ticker date raw_data g @ after)
         \<and> list_all (\<lambda>r. \<not> in_group g r) (before @ after)"
proof -
  from g obtain gs1 gs2 where sp: "groups = gs1 @ g # gs2"
    by (auto dest: split_list)
  have ni: "g \<notin> set gs1" "g \<notin> set gs2"
    using distinct_groups unfolding sp by auto
  have sub: "set gs1 \<subseteq> set groups" "set gs2 \<subseteq> set groups"
    unfolding sp by auto
  let ?f = "group_records ticker date raw_data"
  have "concat (map ?f groups) = concat (map ?f gs1) @ ?f g @ concat (map ?f gs2)"
    by (simp add: sp)
  moreover have "list_all (\<lambda>r. \<not> in_group g r) (concat (map ?f gs1) @ concat (map ?f gs2))"
    using concat_other_groups [OF g sub(1) ni(1)] concat_other_groups [OF g sub(2) ni(2)]
    by simp
  ultimately show ?thesis
    using normalizer_records [OF b, of ticker date all_data] by (metis append_assoc)
qed

lemma filter_block:
  assumes "list_all (\<lambda>r. \<not> P r) (before @ after)" and "list_all P block"
  shows "filter P (before @ block @ after) = block"
  using assms by (auto simp: list_all_iff filter_empty_conv filter_id_conv)

lemma zip_take_lengths: "zip (take (length vs) ts) (take (length ts) vs) = zip ts vs"
  by (induction ts vs rule: list_induct2') auto

subsection \<open>The two example bundles\<close>

lemmas bundle_eval =
  is_bundle_def is_phase_def is_slot_def is_series_def is_point_def lookup_def series_at_def
  groups_def

lemma scenario_is_bundle: "is_bundle scenario_bundle"
  by (simp add: scenario_bundle_def bundle_eval)

lemma scenario_series:
  "series_at scenario_bundle ''opening'' ''imbalance''
     = Some ([JStr ''09:28:00'', JStr ''09:29:00''],
             [JObj [(''y'', JNum 1000), (''label'', JStr ''1.0K'')],
              JObj [(''y'', JNum 1200), (''label'', JNull)]])"
  by (simp add: scenario_bundle_def bundle_eval)

lemma ragged_is_bundle: "is_bundle ragged_bundle"
  by (simp add: ragged_bundle_def bundle_eval)

lemma ragged_series:
  "series_at ragged_bundle ''closing'' ''price''
     = Some ([JStr ''15:50:00'', JStr ''15:55:00'', JStr ''15:59:00''],
             [JObj [(''y'', JNum 101), (''label'', JNull)],
              JObj [(''y'', JNum 102), (''label'', JNull)]])"
  by (simp add: ragged_bundle_def bundle_eval)

lemmas normalize_eval =
  normalizer_def auction_type_body_def metric_body_def append_record_def metric_name_of_def

lemma scenario_normalized:
  "normalizer ''A'' ''12-02-2024'' scenario_bundle []
     = Inr [JObj [(''symbol'', JStr ''A''), (''date'', JStr ''12-02-2024''),
                  (''auction_type'', JStr ''opening''), (''metric'', JStr ''imbalance''),
                  (''time'', JStr ''09:28:00''), (''value'', JNum 1000),
                  (''label'', JStr ''1.0K'')],
            JObj [(''symbol'', JStr ''A''), (''date'', JStr ''12-02-2024''),
                  (''auction_type'', JStr ''opening''), (''metric'', JStr ''imbalance''),
                  (''time'', JStr ''09:29:00''), (''value'', JNum 1200),
                  (''label'', JNull)]]"
  by (simp add: scenario_bundle_def normalize_eval)

subsection \<open>Counting the records\<close>




subsection \<open>The claims on the normalizer\<close>

text \<open>
  Claim C7: every record the normalizer emits for a bundle was built from an index of
  a present series of some (phase, slot) group, and its \<^verbatim>\<open>metric\<close> field is the remapped
  name of that slot: \<^verbatim>\<open>paired\<close> becomes \<^verbatim>\<open>paired_quantity\<close>, \<^verbatim>\<open>price\<close> becomes
  \<^verbatim>\<open>clearing_price\<close>, \<^verbatim>\<open>imbalance\<close> stays. So the field is one of the three external
  names and never \<^verbatim>\<open>paired\<close> or \<^verbatim>\<open>price\<close>.
\<close>

theorem normalizer_remaps_metric:
  assumes "is_bundle raw_data"
    and "normalizer ticker date raw_data all_data = Inr (all_data @ out)" and "r \<in> set out"
  shows "(\<exists>g\<in>set groups. \<exists>ts vs i.
            series_at raw_data (fst g) (snd g) = Some (ts, vs) \<and> i < length ts \<and> i < length vs
          \<and> r = record_of ticker date (fst g) (metric_name_of (snd g)) (ts ! i, vs ! i)
          \<and> lookup r ''metric'' = Some (JStr (metric_name_of (snd g))))
       \<and> metric_name_of ''paired'' = ''paired_quantity''
       \<and> metric_name_of ''price'' = ''clearing_price''
       \<and> metric_name_of ''imbalance'' = ''imbalance''
       \<and> lookup r ''metric'' \<in> {Some (JStr ''imbalance''), Some (JStr ''paired_quantity''),
                                   Some (JStr ''clearing_price'')}
       \<and> lookup r ''metric'' \<noteq> Some (JStr ''paired'')
       \<and> lookup r ''metric'' \<noteq> Some (JStr ''price'')"
proof -
  from normalizer_records [OF assms(1), of ticker date all_data] assms(2)
  have "out = concat (map (group_records ticker date raw_data) groups)" by simp
  with assms(3) obtain g where g: "g \<in> set groups"
    and r: "r \<in> set (group_records ticker date raw_data g)" by auto
  from r obtain tv where "series_at raw_data (fst g) (snd g) = Some tv"
    by (cases "series_at raw_data (fst g) (snd g)") (auto simp: group_records_def)
  then obtain ts vs where s: "series_at raw_data (fst g) (snd g) = Some (ts, vs)"
    by (cases tv) auto
  with r have r': "r \<in> set (map (record_of ticker date (fst g) (metric_name_of (snd g))) (zip ts vs))"
    by (simp add: group_records_def)
  from r' obtain i where i: "i < length ts" "i < length vs"
    and ri: "r = record_of ticker date (fst g) (metric_name_of (snd g)) (ts ! i, vs ! i)"
    by (auto simp: set_zip)
  have m: "lookup r ''metric'' = Some (JStr (metric_name_of (snd g)))"
    by (simp add: ri record_of_def)
  have names: "metric_name_of (snd g) \<in> {''imbalance'', ''paired_quantity'', ''clearing_price''}"
    using g unfolding in_groups by (elim conjE disjE) (simp_all add: metric_names)
  have first: "\<exists>g\<in>set groups. \<exists>ts vs i.
            series_at raw_data (fst g) (snd g) = Some (ts, vs) \<and> i < length ts \<and> i < length vs
          \<and> r = record_of ticker date (fst g) (metric_name_of (snd g)) (ts ! i, vs ! i)
          \<and> lookup r ''metric'' = Some (JStr (metric_name_of (snd g)))"
    using g s i ri m by blast
  have in3: "lookup r ''metric'' \<in> {Some (JStr ''imbalance''), Some (JStr ''paired_quantity''),
                                       Some (JStr ''clearing_price'')}"
    using m names by auto
  have ne: "lookup r ''metric'' \<noteq> Some (JStr ''paired'')"
    "lookup r ''metric'' \<noteq> Some (JStr ''price'')"
    using m names by auto
  show ?thesis
    using first in3 ne metric_names by (intro conjI)
qed

text \<open>
  On the bundle with the ragged closing price: the two records are emitted under the
  name \<^verbatim>\<open>clearing_price\<close>.
\<close>

theorem normalizer_remaps_metric_witness:
  "lookup (record_of ''WFC'' ''12-03-2024'' ''closing'' ''clearing_price''
             (JStr ''15:55:00'', JObj [(''y'', JNum 102), (''label'', JNull)])) ''metric''
     \<in> {Some (JStr ''imbalance''), Some (JStr ''paired_quantity''), Some (JStr ''clearing_price'')}
   \<and> lookup (record_of ''WFC'' ''12-03-2024'' ''closing'' ''clearing_price''
             (JStr ''15:55:00'', JObj [(''y'', JNum 102), (''label'', JNull)])) ''metric''
     \<noteq> Some (JStr ''price'')
   \<and> normalizer ''WFC'' ''12-03-2024'' ragged_bundle []
     = Inr [record_of ''WFC'' ''12-03-2024'' ''closing'' ''clearing_price''
              (JStr ''15:50:00'', JObj [(''y'', JNum 101), (''label'', JNull)]),
            record_of ''WFC'' ''12-03-2024'' ''closing'' ''clearing_price''
              (JStr ''15:55:00'', JObj [(''y'', JNum 102), (''label'', JNull)])]"
proof -
  let ?second = "record_of ''WFC'' ''12-03-2024'' ''closing'' ''clearing_price''
             (JStr ''15:55:00'', JObj [(''y'', JNum 102), (''label'', JNull)])"
  let ?first = "record_of ''WFC'' ''12-03-2024'' ''closing'' ''clearing_price''
             (JStr ''15:50:00'', JObj [(''y'', JNum 101), (''label'', JNull)])"
  have n: "normalizer ''WFC'' ''12-03-2024'' ragged_bundle [] = Inr ([] @ [?first, ?second])"
    by (simp add: ragged_bundle_def normalize_eval record_of_def field_def lookup_def)
  have r: "?second \<in> set [?first, ?second]" by simp
  note t = normalizer_remaps_metric [OF ragged_is_bundle n r]
  have a: "lookup ?second ''metric''
     \<in> {Some (JStr ''imbalance''), Some (JStr ''paired_quantity''), Some (JStr ''clearing_price'')}"
    using t by (elim conjE)
  have b: "lookup ?second ''metric'' \<noteq> Some (JStr ''price'')"
    using t by (elim conjE)
  have c: "normalizer ''WFC'' ''12-03-2024'' ragged_bundle [] = Inr [?first, ?second]"
    using n by (simp only: append_Nil)
  show ?thesis
    using a b c by (intro conjI)
qed

text \<open>
  Claim C8: for every bundle and every present series in it, the records built from
  the series stand in the output as one block, the record of index \<open>i\<close> right before
  the record of index \<open>i + 1\<close>, and no other record of the output belongs to the group.
\<close>

theorem normalizer_keeps_index_order:
  assumes "is_bundle raw_data" and "g \<in> set groups"
    and "series_at raw_data (fst g) (snd g) = Some (ts, vs)"
  shows "\<exists>before after.
           normalizer ticker date raw_data all_data
             = Inr (all_data @ before
                    @ map (record_of ticker date (fst g) (metric_name_of (snd g))) (zip ts vs)
                    @ after)
         \<and> list_all (\<lambda>r. \<not> in_group g r) (before @ after)"
  using normalizer_block [OF assms(1,2), of ticker date all_data] assms(3)
  by (simp add: group_records_def)

text \<open>On the scenario of the specification: the two records of the opening imbalance, in order.\<close>

theorem normalizer_keeps_index_order_witness:
  "\<exists>before after.
     normalizer ''A'' ''12-02-2024'' scenario_bundle []
       = Inr ([] @ before
              @ map (record_of ''A'' ''12-02-2024'' ''opening'' ''imbalance'')
                  (zip [JStr ''09:28:00'', JStr ''09:29:00'']
                       [JObj [(''y'', JNum 1000), (''label'', JStr ''1.0K'')],
                        JObj [(''y'', JNum 1200), (''label'', JNull)]])
              @ after)
     \<and> list_all (\<lambda>r. \<not> in_group (''opening'', ''imbalance'') r) (before @ after)"
proof -
  have g: "(''opening'', ''imbalance'') \<in> set groups"
    by (simp add: groups_def)
  have s: "series_at scenario_bundle (fst (''opening'', ''imbalance'')) (snd (''opening'', ''imbalance''))
     = Some ([JStr ''09:28:00'', JStr ''09:29:00''],
             [JObj [(''y'', JNum 1000), (''label'', JStr ''1.0K'')],
              JObj [(''y'', JNum 1200), (''label'', JNull)]])"
    using scenario_series by simp
  from normalizer_keeps_index_order [OF scenario_is_bundle g s, of "''A''" "''12-02-2024''" "[]"]
  show ?thesis by (simp add: metric_names)
qed

text \<open>
  Claim C9: whatever the lengths of \<^verbatim>\<open>times\<close> and \<^verbatim>\<open>values\<close> of a present series, the
  normalizer does not fail, and the records of the group are as many as the shorter of
  the two is long: they are built from the items both sequences have, and the tail of
  the longer one is dropped.
\<close>

theorem normalizer_truncates_to_shorter:
  assumes "is_bundle raw_data" and "g \<in> set groups"
    and "series_at raw_data (fst g) (snd g) = Some (ts, vs)"
  shows "\<exists>out. normalizer ticker date raw_data all_data = Inr (all_data @ out)
           \<and> length (filter (in_group g) out) = min (length ts) (length vs)
           \<and> filter (in_group g) out
               = map (record_of ticker date (fst g) (metric_name_of (snd g)))
                   (zip (take (length vs) ts) (take (length ts) vs))"
proof -
  from normalizer_block [OF assms(1,2), of ticker date all_data]
  obtain before after where
    n: "normalizer ticker date raw_data all_data
          = Inr (all_data @ before @ group_records ticker date raw_data g @ after)"
    and o: "list_all (\<lambda>r. \<not> in_group g r) (before @ after)"
    by blast
  have f: "filter (in_group g) (before @ group_records ticker date raw_data g @ after)
             = group_records ticker date raw_data g"
    using filter_block [OF o group_records_in_group] .
  have z: "zip (take (length vs) ts) (take (length ts) vs) = zip ts vs"
    by (rule zip_take_lengths)
  show ?thesis
    using n f assms(3) z
    by (intro exI [of _ "before @ group_records ticker date raw_data g @ after"])
       (simp add: group_records_def)
qed

text \<open>On three times and two values: two records, built from the first two times.\<close>

theorem normalizer_truncates_to_shorter_witness:
  "\<exists>out. normalizer ''WFC'' ''12-03-2024'' ragged_bundle [] = Inr ([] @ out)
      \<and> length (filter (in_group (''closing'', ''price'')) out) = 2
      \<and> filter (in_group (''closing'', ''price'')) out
          = map (record_of ''WFC'' ''12-03-2024'' ''closing'' ''clearing_price'')
              [(JStr ''15:50:00'', JObj [(''y'', JNum 101), (''label'', JNull)]),
               (JStr ''15:55:00'', JObj [(''y'', JNum 102), (''label'', JNull)])]"
proof -
  have g: "(''closing'', ''price'') \<in> set groups"
    by (simp add: groups_def)
  have s: "series_at ragged_bundle (fst (''closing'', ''price'')) (snd (''closing'', ''price''))
     = Some ([JStr ''15:50:00'', JStr ''15:55:00'', JStr ''15:59:00''],
             [JObj [(''y'', JNum 101), (''label'', JNull)],
              JObj [(''y'', JNum 102), (''label'', JNull)]])"
    using ragged_series by simp
  from normalizer_truncates_to_shorter [OF ragged_is_bundle g s, of "''WFC''" "''12-03-2024''" "[]"]
  show ?thesis by (simp add: metric_names numeral_2_eq_2)
qed

section \<open>Properties of the chart extractor\<close>

lemma starts_with_iff: "starts_with s sub \<longleftrightarrow> (\<exists>b. s = sub @ b)"
  by (induction s sub rule: starts_with.induct) auto

lemma str_includes_iff: "str_includes s sub \<longleftrightarrow> (\<exists>a b. s = a @ sub @ b)"
proof (induction s)
  case Nil
  then show ?case by auto
next
  case (Cons c s)
  show ?case
  proof
    assume "str_includes (c # s) sub"
    then consider "starts_with (c # s) sub" | "str_includes s sub" by auto
    then show "\<exists>a b. c # s = a @ sub @ b"
    proof cases
      case 1
      then obtain b where "c # s = sub @ b" by (auto simp: starts_with_iff)
      then have "c # s = [] @ sub @ b" by simp
      then show ?thesis by blast
    next
      case 2
      with Cons obtain a b where "s = a @ sub @ b" by blast
      then have "c # s = (c # a) @ sub @ b" by simp
      then show ?thesis by blast
    qed
  next
    assume "\<exists>a b. c # s = a @ sub @ b"
    then obtain a b where ab: "c # s = a @ sub @ b" by blast
    show "str_includes (c # s) sub"
    proof (cases a)
      case Nil
      with ab have "starts_with (c # s) sub" by (auto simp: starts_with_iff)
      then show ?thesis by simp
    next
      case (Cons x a')
      with ab have "s = a' @ sub @ b" by simp
      with Cons.IH have "str_includes s sub" by blast
      then show ?thesis by simp
    qed
  qed
qed

lemma phase_of_assign:
  "map_of (phase_of (assign rawData t key v) t) = (map_of (phase_of rawData t))(key \<mapsto> v)"
  by (simp add: phase_of_def assign_def update_conv')

lemma header_body_step:
  assumes "header_body highcharts header (rawData, chartIndex) = Inr (rawData', chartIndex')"
  shows "chartIndex' = chartIndex + 3 \<and>
         (\<exists>a b c. extractSeriesData (at_index highcharts chartIndex) = Inr a
            \<and> extractSeriesData (at_index highcharts (chartIndex + 1)) = Inr b
            \<and> extractSeriesData (at_index highcharts (chartIndex + 2)) = Inr c
            \<and> map_of (phase_of rawData' (header_type header)) ''imbalance'' = Some a
            \<and> map_of (phase_of rawData' (header_type header)) ''paired'' = Some b
            \<and> map_of (phase_of rawData' (header_type header)) ''price'' = Some c)"
proof -
  obtain a where a: "extractSeriesData (at_index highcharts chartIndex) = Inr a"
    using assms by (cases "extractSeriesData (at_index highcharts chartIndex)")
      (auto simp: header_body_def)
  obtain b where b: "extractSeriesData (at_index highcharts (chartIndex + 1)) = Inr b"
    using assms a by (cases "extractSeriesData (at_index highcharts (chartIndex + 1))")
      (auto simp: header_body_def)
  obtain c where c: "extractSeriesData (at_index highcharts (chartIndex + 2)) = Inr c"
    using assms a b by (cases "extractSeriesData (at_index highcharts (chartIndex + 2))")
      (auto simp: header_body_def)
  have r: "rawData' = assign (assign (assign rawData (header_type header) ''imbalance'' a)
                       (header_type header) ''paired'' b) (header_type header) ''price'' c"
    and i: "chartIndex' = chartIndex + 3"
    using assms a b c by (simp_all add: header_body_def Let_def)
  show ?thesis
    using a b c i by (simp add: r phase_of_assign)
qed

lemma for_each_prefix:
  "for_each body (xs @ ys) s = Inr t \<Longrightarrow> \<exists>u. for_each body xs s = Inr u"
  by (cases "for_each body xs s") (auto simp: for_each_append)

lemma for_each_single: "for_each body [x] s = body x s"
  by (cases "body x s") auto

lemma for_each_snoc:
  "for_each body (xs @ [x]) s = and_then (for_each body xs s) (body x)"
  by (cases "for_each body xs s") (auto simp: for_each_append split: sum.splits)

lemma header_loop_index:
  "for_each (header_body highcharts) hs (rawData, chartIndex) = Inr (rawData', chartIndex')
   \<Longrightarrow> chartIndex' = chartIndex + 3 * length hs"
proof (induction hs arbitrary: rawData chartIndex)
  case Nil
  then show ?case by simp
next
  case (Cons h hs)
  from Cons.prems obtain r1 i1 where
    step: "header_body highcharts h (rawData, chartIndex) = Inr (r1, i1)" and
    rest: "for_each (header_body highcharts) hs (r1, i1) = Inr (rawData', chartIndex')"
    by (cases "header_body highcharts h (rawData, chartIndex)") auto
  from header_body_step [OF step] have "i1 = chartIndex + 3" by simp
  with Cons.IH [OF rest] show ?case by simp
qed

lemma header_loop_heading:
  assumes run: "for_each (header_body highcharts) hs st0 = Inr final"
    and k: "k < length hs" and st0: "st0 = (\<lparr>raw_opening = [], raw_closing = []\<rparr>, 0)"
  shows "\<exists>rawData a b c.
           for_each (header_body highcharts) (take (Suc k) hs) st0 = Inr (rawData, 3 * (k + 1))
         \<and> extractSeriesData (at_index highcharts (3 * k)) = Inr a
         \<and> extractSeriesData (at_index highcharts (3 * k + 1)) = Inr b
         \<and> extractSeriesData (at_index highcharts (3 * k + 2)) = Inr c
         \<and> map_of (phase_of rawData (header_type (hs ! k))) ''imbalance'' = Some a
         \<and> map_of (phase_of rawData (header_type (hs ! k))) ''paired'' = Some b
         \<and> map_of (phase_of rawData (header_type (hs ! k))) ''price'' = Some c"
proof -
  have split: "hs = take (Suc k) hs @ drop (Suc k) hs" by simp
  have tk: "take (Suc k) hs = take k hs @ [hs ! k]"
    using k by (simp add: take_Suc_conv_app_nth)
  from run split obtain u where u: "for_each (header_body highcharts) (take (Suc k) hs) st0 = Inr u"
    using for_each_prefix [of "header_body highcharts" "take (Suc k) hs" "drop (Suc k) hs" st0 final]
    by auto
  then obtain v where v: "for_each (header_body highcharts) (take k hs) st0 = Inr v"
    and step: "header_body highcharts (hs ! k) v = Inr u"
    unfolding tk for_each_snoc
    by (cases "for_each (header_body highcharts) (take k hs) st0") auto
  have iv: "snd v = 3 * k"
    using header_loop_index [of highcharts "take k hs" "\<lparr>raw_opening = [], raw_closing = []\<rparr>" 0 "fst v" "snd v"]
      v k by (simp add: st0)
  have step': "header_body highcharts (hs ! k) (fst v, 3 * k) = Inr (fst u, snd u)"
    using step iv by (cases v) simp
  from header_body_step [OF step']
  obtain a b c where
    "snd u = 3 * k + 3" "extractSeriesData (at_index highcharts (3 * k)) = Inr a"
    "extractSeriesData (at_index highcharts (3 * k + 1)) = Inr b"
    "extractSeriesData (at_index highcharts (3 * k + 2)) = Inr c"
    "map_of (phase_of (fst u) (header_type (hs ! k))) ''imbalance'' = Some a"
    "map_of (phase_of (fst u) (header_type (hs ! k))) ''paired'' = Some b"
    "map_of (phase_of (fst u) (header_type (hs ! k))) ''price'' = Some c"
    by blast
  moreover have "u = (fst u, 3 * (k + 1))"
    using \<open>snd u = 3 * k + 3\<close> by (cases u) simp
  ultimately show ?thesis
    using u by metis
qed

subsection \<open>What a heading leaves in its phase and in the other phase\<close>

lemma update_slots:
  assumes "slots_or_empty p"
  shows "AList.update ''price'' c (AList.update ''paired'' b (AList.update ''imbalance'' a p))
           = slots a b c"
  using assms by (auto simp: slots_or_empty_def slots_def)

lemma header_type_cases: "header_type h = ''opening'' \<or> header_type h = ''closing''"
  by (simp add: header_type_def)

lemma phase_of_assign_same:
  "phase_of (assign r t key v) t = AList.update key v (phase_of r t)"
  by (simp add: phase_of_def assign_def)

lemma phase_of_assign_other:
  assumes "t = ''opening'' \<or> t = ''closing''" and "t' = ''opening'' \<or> t' = ''closing''"
    and "t' \<noteq> t"
  shows "phase_of (assign r t key v) t' = phase_of r t'"
  using assms by (auto simp: phase_of_def assign_def)

lemma header_body_result:
  assumes "header_body highcharts header (rawData, chartIndex) = Inr (rawData', chartIndex')"
  shows "\<exists>a b c. extractSeriesData (at_index highcharts chartIndex) = Inr a
            \<and> extractSeriesData (at_index highcharts (chartIndex + 1)) = Inr b
            \<and> extractSeriesData (at_index highcharts (chartIndex + 2)) = Inr c
            \<and> chartIndex' = chartIndex + 3
            \<and> rawData' = assign (assign (assign rawData (header_type header) ''imbalance'' a)
                                     (header_type header) ''paired'' b)
                             (header_type header) ''price'' c"
proof -
  obtain a where a: "extractSeriesData (at_index highcharts chartIndex) = Inr a"
    using assms by (cases "extractSeriesData (at_index highcharts chartIndex)")
      (auto simp: header_body_def)
  obtain b where b: "extractSeriesData (at_index highcharts (chartIndex + 1)) = Inr b"
    using assms a by (cases "extractSeriesData (at_index highcharts (chartIndex + 1))")
      (auto simp: header_body_def)
  obtain c where c: "extractSeriesData (at_index highcharts (chartIndex + 2)) = Inr c"
    using assms a b by (cases "extractSeriesData (at_index highcharts (chartIndex + 2))")
      (auto simp: header_body_def)
  have "rawData' = assign (assign (assign rawData (header_type header) ''imbalance'' a)
                       (header_type header) ''paired'' b) (header_type header) ''price'' c"
    and "chartIndex' = chartIndex + 3"
    using assms a b c by (simp_all add: header_body_def Let_def)
  with a b c show ?thesis by blast
qed

lemma header_body_own_phase:
  assumes "header_body highcharts header (rawData, chartIndex) = Inr (rawData', chartIndex')"
    and "slots_or_empty (phase_of rawData (header_type header))"
  shows "\<exists>a b c. extractSeriesData (at_index highcharts chartIndex) = Inr a
            \<and> extractSeriesData (at_index highcharts (chartIndex + 1)) = Inr b
            \<and> extractSeriesData (at_index highcharts (chartIndex + 2)) = Inr c
            \<and> phase_of rawData' (header_type header) = slots a b c"
proof -
  from header_body_result [OF assms(1)] obtain a b c where
    e: "extractSeriesData (at_index highcharts chartIndex) = Inr a"
       "extractSeriesData (at_index highcharts (chartIndex + 1)) = Inr b"
       "extractSeriesData (at_index highcharts (chartIndex + 2)) = Inr c"
    and r: "rawData' = assign (assign (assign rawData (header_type header) ''imbalance'' a)
                                     (header_type header) ''paired'' b)
                             (header_type header) ''price'' c"
    by blast
  have "phase_of rawData' (header_type header) = slots a b c"
    unfolding r by (simp only: phase_of_assign_same update_slots [OF assms(2)])
  with e show ?thesis by blast
qed

lemma header_body_other_phase:
  assumes "header_body highcharts header (rawData, chartIndex) = Inr (rawData', chartIndex')"
    and "t = ''opening'' \<or> t = ''closing''" and "header_type header \<noteq> t"
  shows "phase_of rawData' t = phase_of rawData t"
proof -
  from header_body_result [OF assms(1)] obtain a b c where
    r: "rawData' = assign (assign (assign rawData (header_type header) ''imbalance'' a)
                                     (header_type header) ''paired'' b)
                             (header_type header) ''price'' c"
    by blast
  have ne: "t \<noteq> header_type header" using assms(3) by simp
  show ?thesis
    unfolding r
    by (simp only: phase_of_assign_other [OF header_type_cases assms(2) ne])
qed

lemma header_body_keeps_shape:
  assumes "header_body highcharts header (rawData, chartIndex) = Inr (rawData', chartIndex')"
    and "slots_or_empty (phase_of rawData ''opening'')"
    and "slots_or_empty (phase_of rawData ''closing'')"
  shows "slots_or_empty (phase_of rawData' ''opening'')
       \<and> slots_or_empty (phase_of rawData' ''closing'')"
proof (cases "header_type header = ''opening''")
  case True
  from header_body_own_phase [OF assms(1)] assms(2) True
  have "slots_or_empty (phase_of rawData' ''opening'')"
    by (auto simp: slots_or_empty_def)
  moreover have "phase_of rawData' ''closing'' = phase_of rawData ''closing''"
    using header_body_other_phase [OF assms(1), of "''closing''"] True by simp
  ultimately show ?thesis using assms(3) by simp
next
  case False
  with header_type_cases [of header] have c: "header_type header = ''closing''" by simp
  from header_body_own_phase [OF assms(1)] assms(3) c
  have "slots_or_empty (phase_of rawData' ''closing'')"
    by (auto simp: slots_or_empty_def)
  moreover have "phase_of rawData' ''opening'' = phase_of rawData ''opening''"
    using header_body_other_phase [OF assms(1), of "''opening''"] c by simp
  ultimately show ?thesis using assms(2) by simp
qed

lemma header_loop_keeps_shape:
  assumes "for_each (header_body highcharts) hs st = Inr st'"
    and "slots_or_empty (phase_of (fst st) ''opening'')"
    and "slots_or_empty (phase_of (fst st) ''closing'')"
  shows "slots_or_empty (phase_of (fst st') ''opening'')
       \<and> slots_or_empty (phase_of (fst st') ''closing'')"
  using assms
proof (induction hs arbitrary: st)
  case Nil
  then show ?case by simp
next
  case (Cons h hs)
  from Cons.prems(1) obtain st1 where
    step: "header_body highcharts h st = Inr st1" and
    rest: "for_each (header_body highcharts) hs st1 = Inr st'"
    by (cases "header_body highcharts h st") auto
  have "header_body highcharts h (fst st, snd st) = Inr (fst st1, snd st1)"
    using step by simp
  from header_body_keeps_shape [OF this Cons.prems(2,3)]
  show ?case using Cons.IH [OF rest] by simp
qed

lemma header_loop_other_phase:
  assumes "for_each (header_body highcharts) hs st = Inr st'"
    and "t = ''opening'' \<or> t = ''closing''" and "\<forall>h\<in>set hs. header_type h \<noteq> t"
  shows "phase_of (fst st') t = phase_of (fst st) t"
  using assms(1,3)
proof (induction hs arbitrary: st)
  case Nil
  then show ?case by simp
next
  case (Cons h hs)
  from Cons.prems(1) obtain st1 where
    step: "header_body highcharts h st = Inr st1" and
    rest: "for_each (header_body highcharts) hs st1 = Inr st'"
    by (cases "header_body highcharts h st") auto
  have "header_body highcharts h (fst st, snd st) = Inr (fst st1, snd st1)"
    using step by simp
  from header_body_other_phase [OF this assms(2)] Cons.prems(2)
  have "phase_of (fst st1) t = phase_of (fst st) t" by simp
  with Cons.IH [OF rest] Cons.prems(2) show ?case by simp
qed

lemma header_loop_last_heading:
  assumes run: "for_each (header_body highcharts) hs st0 = Inr final"
    and k: "k < length hs" and st0: "st0 = (\<lparr>raw_opening = [], raw_closing = []\<rparr>, 0)"
  shows "\<exists>rawData a b c.
           for_each (header_body highcharts) (take (Suc k) hs) st0 = Inr (rawData, 3 * (k + 1))
         \<and> extractSeriesData (at_index highcharts (3 * k)) = Inr a
         \<and> extractSeriesData (at_index highcharts (3 * k + 1)) = Inr b
         \<and> extractSeriesData (at_index highcharts (3 * k + 2)) = Inr c
         \<and> phase_of rawData (header_type (hs ! k)) = slots a b c
         \<and> ((\<forall>j. k < j \<and> j < length hs \<longrightarrow> header_type (hs ! j) \<noteq> header_type (hs ! k))
              \<longrightarrow> phase_of (fst final) (header_type (hs ! k)) = slots a b c)"
proof -
  let ?t = "header_type (hs ! k)"
  have tk: "take (Suc k) hs = take k hs @ [hs ! k]"
    using k by (simp add: take_Suc_conv_app_nth)
  have split: "hs = take (Suc k) hs @ drop (Suc k) hs" by simp
  from run obtain u where u: "for_each (header_body highcharts) (take (Suc k) hs) st0 = Inr u"
    and rest: "for_each (header_body highcharts) (drop (Suc k) hs) u = Inr final"
    using for_each_append [of "header_body highcharts" "take (Suc k) hs" "drop (Suc k) hs" st0]
    by (cases "for_each (header_body highcharts) (take (Suc k) hs) st0") auto
  from u obtain v where v: "for_each (header_body highcharts) (take k hs) st0 = Inr v"
    and step: "header_body highcharts (hs ! k) v = Inr u"
    unfolding tk for_each_snoc
    by (cases "for_each (header_body highcharts) (take k hs) st0") auto
  have iv: "snd v = 3 * k"
    using header_loop_index [of highcharts "take k hs" "\<lparr>raw_opening = [], raw_closing = []\<rparr>" 0
        "fst v" "snd v"] v k
    by (simp add: st0)
  have shape0: "slots_or_empty (phase_of (fst st0) ''opening'')"
    "slots_or_empty (phase_of (fst st0) ''closing'')"
    by (simp_all add: st0 phase_of_def slots_or_empty_def)
  from header_loop_keeps_shape [OF v shape0]
  have shape: "slots_or_empty (phase_of (fst v) ?t)"
    using header_type_cases [of "hs ! k"] by auto
  have step': "header_body highcharts (hs ! k) (fst v, 3 * k) = Inr (fst u, snd u)"
    using step iv by (cases v) simp
  from header_body_own_phase [OF step' shape]
  obtain a b c where e: "extractSeriesData (at_index highcharts (3 * k)) = Inr a"
      "extractSeriesData (at_index highcharts (3 * k + 1)) = Inr b"
      "extractSeriesData (at_index highcharts (3 * k + 2)) = Inr c"
    and p: "phase_of (fst u) ?t = slots a b c"
    by blast
  from header_body_result [OF step'] have "snd u = 3 * k + 3" by blast
  then have ueq: "u = (fst u, 3 * (k + 1))" by (cases u) simp
  have last: "phase_of (fst final) ?t = slots a b c"
    if later: "\<forall>j. k < j \<and> j < length hs \<longrightarrow> header_type (hs ! j) \<noteq> ?t"
  proof -
    have "\<forall>h\<in>set (drop (Suc k) hs). header_type h \<noteq> ?t"
    proof
      fix h assume "h \<in> set (drop (Suc k) hs)"
      then obtain i where i: "i < length (drop (Suc k) hs)" "h = drop (Suc k) hs ! i"
        by (auto simp: in_set_conv_nth)
      then have "h = hs ! (Suc k + i)" "Suc k + i < length hs" by auto
      with later show "header_type h \<noteq> ?t" by auto
    qed
    from header_loop_other_phase [OF rest header_type_cases this] p show ?thesis by simp
  qed
  show ?thesis
    using u ueq e p last by (intro exI [of _ "fst u"] exI [of _ a] exI [of _ b] exI [of _ c]) auto
qed

subsection \<open>The claim on the extractor\<close>

text \<open>
  Claim C6: on a page where the script succeeds, every heading is classified as opening
  exactly when its text contains \<^verbatim>\<open>Opening\<close>, character for character, and as closing
  otherwise. Heading number \<open>k\<close> (from 0, in document order) consumes the charts
  \<open>3k\<close>, \<open>3k + 1\<close> and \<open>3k + 2\<close> of \<^verbatim>\<open>Highcharts.charts\<close>: after it the phase of
  its type holds exactly what \<^verbatim>\<open>extractSeriesData\<close> gives for them, as \<^verbatim>\<open>imbalance\<close>,
  \<^verbatim>\<open>paired\<close> and \<^verbatim>\<open>price\<close> in this order, and the chart index stands at \<open>3(k + 1)\<close>.
  In what the script returns, a phase holds the three slots of the last heading of its
  type and is empty when no heading has its type; the chart index ends at three times
  the number of headings.
\<close>

theorem extractor_classifies_and_groups:
  assumes "extract_raw pg = Inr final" and "k < length (headers pg)"
  shows "(header_type (headers pg ! k) = ''opening''
            \<longleftrightarrow> (\<exists>a b. headers pg ! k = a @ ''Opening'' @ b))
       \<and> (header_type (headers pg ! k) = ''closing''
            \<longleftrightarrow> \<not> (\<exists>a b. headers pg ! k = a @ ''Opening'' @ b))
       \<and> snd final = 3 * length (headers pg)
       \<and> raw_data_script pg
           = Inr (JObj [(''opening'', JObj (raw_opening (fst final))),
                        (''closing'', JObj (raw_closing (fst final)))])
       \<and> (\<exists>rawData a b c.
             for_each (header_body (charts pg)) (take (Suc k) (headers pg))
               (\<lparr>raw_opening = [], raw_closing = []\<rparr>, 0) = Inr (rawData, 3 * (k + 1))
           \<and> extractSeriesData (at_index (charts pg) (3 * k)) = Inr a
           \<and> extractSeriesData (at_index (charts pg) (3 * k + 1)) = Inr b
           \<and> extractSeriesData (at_index (charts pg) (3 * k + 2)) = Inr c
           \<and> phase_of rawData (header_type (headers pg ! k)) = slots a b c
           \<and> ((\<forall>j. k < j \<and> j < length (headers pg)
                    \<longrightarrow> header_type (headers pg ! j) \<noteq> header_type (headers pg ! k))
                \<longrightarrow> phase_of (fst final) (header_type (headers pg ! k)) = slots a b c))
       \<and> ((\<forall>h\<in>set (headers pg). header_type h \<noteq> ''opening'') \<longrightarrow> raw_opening (fst final) = [])
       \<and> ((\<forall>h\<in>set (headers pg). header_type h \<noteq> ''closing'') \<longrightarrow> raw_closing (fst final) = [])"
proof (intro conjI impI)
  note run = assms(1) [unfolded extract_raw_def]
  show "header_type (headers pg ! k) = ''opening''
          \<longleftrightarrow> (\<exists>a b. headers pg ! k = a @ ''Opening'' @ b)"
    by (simp add: header_type_def str_includes_iff)
  show "header_type (headers pg ! k) = ''closing''
          \<longleftrightarrow> \<not> (\<exists>a b. headers pg ! k = a @ ''Opening'' @ b)"
    by (simp add: header_type_def str_includes_iff)
  show "snd final = 3 * length (headers pg)"
    using header_loop_index [of "charts pg" "headers pg" "\<lparr>raw_opening = [], raw_closing = []\<rparr>" 0
        "fst final" "snd final"] run
    by simp
  show "raw_data_script pg
           = Inr (JObj [(''opening'', JObj (raw_opening (fst final))),
                        (''closing'', JObj (raw_closing (fst final)))])"
    using assms(1) by (simp add: raw_data_script_def)
  show "\<exists>rawData a b c.
             for_each (header_body (charts pg)) (take (Suc k) (headers pg))
               (\<lparr>raw_opening = [], raw_closing = []\<rparr>, 0) = Inr (rawData, 3 * (k + 1))
           \<and> extractSeriesData (at_index (charts pg) (3 * k)) = Inr a
           \<and> extractSeriesData (at_index (charts pg) (3 * k + 1)) = Inr b
           \<and> extractSeriesData (at_index (charts pg) (3 * k + 2)) = Inr c
           \<and> phase_of rawData (header_type (headers pg ! k)) = slots a b c
           \<and> ((\<forall>j. k < j \<and> j < length (headers pg)
                    \<longrightarrow> header_type (headers pg ! j) \<noteq> header_type (headers pg ! k))
                \<longrightarrow> phase_of (fst final) (header_type (headers pg ! k)) = slots a b c)"
    using header_loop_last_heading [OF run assms(2) refl] .
next
  assume "\<forall>h\<in>set (headers pg). header_type h \<noteq> ''opening''"
  from header_loop_other_phase [OF assms(1) [unfolded extract_raw_def] _ this]
  show "raw_opening (fst final) = []"
    by (simp add: phase_of_def)
next
  assume "\<forall>h\<in>set (headers pg). header_type h \<noteq> ''closing''"
  from header_loop_other_phase [OF assms(1) [unfolded extract_raw_def] _ this]
  show "raw_closing (fst final) = []"
    by (simp add: phase_of_def)
qed

text \<open>
  On the example page: the second heading is a closing one, a heading with a small
  \<^verbatim>\<open>o\<close> is a closing one too; the script returns the first three charts as the
  opening phase, and chart 3 and the two holes after it as the closing phase.
\<close>

lemmas extract_eval =
  extract_raw_def header_body_def header_type_def extractSeriesData_def at_index_def
  assign_def phase_of_def point_data_def property_def example_page_def example_chart_def
  raw_data_script_def AList.update.simps Let_def


theorem extractor_classifies_and_groups_witness:
  "header_type ''Closing Auction Imbalance'' = ''closing''
   \<and> header_type ''Opening Auction Imbalance'' = ''opening''
   \<and> header_type ''opening cross'' = ''closing''
   \<and> (\<exists>final. extract_raw example_page = Inr final
        \<and> snd final = 6
        \<and> raw_opening (fst final)
            = slots (JObj [(''times'', JArr [JStr ''09:28:00'']),
                           (''values'', JArr [JObj [(''y'', JNum 1000), (''label'', JNull)]])])
                    (JObj [(''times'', JArr [JStr ''09:28:00'']),
                           (''values'', JArr [JObj [(''y'', JNum 500), (''label'', JNull)]])])
                    (JObj [(''times'', JArr [JStr ''09:28:00'']),
                           (''values'', JArr [JObj [(''y'', JNum 25), (''label'', JNull)]])])
        \<and> raw_closing (fst final)
            = slots (JObj [(''times'', JArr [JStr ''15:50:00'']),
                           (''values'', JArr [JObj [(''y'', JNum 800), (''label'', JNull)]])])
                    JNull JNull
        \<and> raw_data_script example_page
            = Inr (JObj [(''opening'', JObj (raw_opening (fst final))),
                         (''closing'', JObj (raw_closing (fst final)))]))"
proof -
  obtain final where f: "extract_raw example_page = Inr final"
    by (simp add: extract_eval)
  have len: "length (headers example_page) = 2"
    by (simp add: example_page_def)
  have k0: "0 < length (headers example_page)" and k1: "1 < length (headers example_page)"
    by (simp_all add: len)
  have h: "headers example_page ! 1 = ''Closing Auction Imbalance''"
    "headers example_page ! 0 = ''Opening Auction Imbalance''"
    by (simp_all add: example_page_def)
  have c: "header_type ''Closing Auction Imbalance'' = ''closing''"
    "header_type ''Opening Auction Imbalance'' = ''opening''"
    "header_type ''opening cross'' = ''closing''"
    by (simp_all add: header_type_def)
  have e: "extractSeriesData (at_index (charts example_page) 0)
        = Inr (JObj [(''times'', JArr [JStr ''09:28:00'']),
                     (''values'', JArr [JObj [(''y'', JNum 1000), (''label'', JNull)]])])"
    "extractSeriesData (at_index (charts example_page) 1)
        = Inr (JObj [(''times'', JArr [JStr ''09:28:00'']),
                     (''values'', JArr [JObj [(''y'', JNum 500), (''label'', JNull)]])])"
    "extractSeriesData (at_index (charts example_page) 2)
        = Inr (JObj [(''times'', JArr [JStr ''09:28:00'']),
                     (''values'', JArr [JObj [(''y'', JNum 25), (''label'', JNull)]])])"
    "extractSeriesData (at_index (charts example_page) 3)
        = Inr (JObj [(''times'', JArr [JStr ''15:50:00'']),
                     (''values'', JArr [JObj [(''y'', JNum 800), (''label'', JNull)]])])"
    "extractSeriesData (at_index (charts example_page) 4) = Inr JNull"
    "extractSeriesData (at_index (charts example_page) 5) = Inr JNull"
    "extractSeriesData (at_index (charts example_page) (Suc 0))
        = Inr (JObj [(''times'', JArr [JStr ''09:28:00'']),
                     (''values'', JArr [JObj [(''y'', JNum 500), (''label'', JNull)]])])"
    "extractSeriesData (at_index (charts example_page) (Suc (Suc 0)))
        = Inr (JObj [(''times'', JArr [JStr ''09:28:00'']),
                     (''values'', JArr [JObj [(''y'', JNum 25), (''label'', JNull)]])])"
    by (simp_all add: extract_eval)
  have later1: "\<forall>j. 1 < j \<and> j < length (headers example_page)
      \<longrightarrow> header_type (headers example_page ! j) \<noteq> header_type (headers example_page ! 1)"
  proof (intro allI impI)
    fix j assume "1 < j \<and> j < length (headers example_page)"
    then have False unfolding len by arith
    then show "header_type (headers example_page ! j) \<noteq> header_type (headers example_page ! 1)"
      by simp
  qed
  have later0: "\<forall>j. 0 < j \<and> j < length (headers example_page)
      \<longrightarrow> header_type (headers example_page ! j) \<noteq> header_type (headers example_page ! 0)"
  proof (intro allI impI)
    fix j assume "0 < j \<and> j < length (headers example_page)"
    then have "j = 1" unfolding len by arith
    then show "header_type (headers example_page ! j) \<noteq> header_type (headers example_page ! 0)"
      using h c by simp
  qed
  note t1 = extractor_classifies_and_groups [OF f k1]
  note t0 = extractor_classifies_and_groups [OF f k0]
  from t1 have n: "snd final = 3 * length (headers example_page)"
    and s: "raw_data_script example_page
           = Inr (JObj [(''opening'', JObj (raw_opening (fst final))),
                        (''closing'', JObj (raw_closing (fst final)))])"
    by blast+
  from t1 later1 obtain a b c' where
    "extractSeriesData (at_index (charts example_page) (3 * 1)) = Inr a"
    "extractSeriesData (at_index (charts example_page) (3 * 1 + 1)) = Inr b"
    "extractSeriesData (at_index (charts example_page) (3 * 1 + 2)) = Inr c'"
    "phase_of (fst final) (header_type (headers example_page ! 1)) = slots a b c'"
    by blast
  then have cl: "raw_closing (fst final)
            = slots (JObj [(''times'', JArr [JStr ''15:50:00'']),
                           (''values'', JArr [JObj [(''y'', JNum 800), (''label'', JNull)]])])
                    JNull JNull"
    using e h c by (simp add: phase_of_def)
  from t0 later0 obtain a b c' where
    "extractSeriesData (at_index (charts example_page) (3 * 0)) = Inr a"
    "extractSeriesData (at_index (charts example_page) (3 * 0 + 1)) = Inr b"
    "extractSeriesData (at_index (charts example_page) (3 * 0 + 2)) = Inr c'"
    "phase_of (fst final) (header_type (headers example_page ! 0)) = slots a b c'"
    by blast
  then have op: "raw_opening (fst final)
            = slots (JObj [(''times'', JArr [JStr ''09:28:00'']),
                           (''values'', JArr [JObj [(''y'', JNum 1000), (''label'', JNull)]])])
                    (JObj [(''times'', JArr [JStr ''09:28:00'']),
                           (''values'', JArr [JObj [(''y'', JNum 500), (''label'', JNull)]])])
                    (JObj [(''times'', JArr [JStr ''09:28:00'']),
                           (''values'', JArr [JObj [(''y'', JNum 25), (''label'', JNull)]])])"
    using e h c by (simp add: phase_of_def)
  have n6: "snd final = 6" using n by (simp add: len)
  from f n6 op cl s c show ?thesis by blast
qed

section \<open>Properties of the scraper and the run\<close>

subsection \<open>Sequencing, traces and the frame of each step\<close>

lemma next_do_Inr [simp]: "next_do (Inr x, st) f = f x st"
  by (simp add: next_do_def)

lemma next_do_Inl [simp]: "next_do (Inl e, st) f = (Inl e, st)"
  by (simp add: next_do_def)

lemma call_None [simp]: "call eff None st = (Inr (), st\<lparr>effects := effects st @ [eff]\<rparr>)"
  by (simp add: call_def)

lemma call_Some [simp]: "call eff (Some e) st = (Inl e, st\<lparr>effects := effects st @ [eff]\<rparr>)"
  by (simp add: call_def)

lemma exported_append [simp]: "exported (xs @ ys) = exported xs @ exported ys"
  by (induction xs rule: exported.induct) auto

lemma other_calls_append [simp]: "other_calls (xs @ ys) = other_calls xs @ other_calls ys"
  by (induction xs rule: other_calls.induct) auto

lemma exported_other_calls: "exported (other_calls es) = exported es"
  by (induction es rule: other_calls.induct) auto

lemma Quit_other_calls: "Quit \<in> set (other_calls es) \<longleftrightarrow> Quit \<in> set es"
  by (induction es rule: other_calls.induct) auto

lemma requested_append [simp]: "requested (xs @ ys) = requested xs @ requested ys"
  by (induction xs rule: requested.induct) auto

lemma for_each_st_append:
  "for_each_st body (xs @ ys) v st =
     (case for_each_st body xs v st of
        (Inl e, st') \<Rightarrow> (Inl e, st')
      | (Inr v', st') \<Rightarrow> for_each_st body ys v' st')"
  by (induction xs arbitrary: v st) (auto split: prod.splits sum.splits)

lemma nested_loops_flat:
  "for_each_st (ticker_body w dates) tickers all_data st
     = for_each_st (\<lambda>p. date_body w (fst p) (snd p)) (pairs tickers dates) all_data st"
proof (induction tickers arbitrary: all_data st)
  case Nil
  then show ?case by (simp add: pairs_def)
next
  case (Cons ticker tickers)
  have inner: "for_each_st (date_body w ticker) ds v s
        = for_each_st (\<lambda>p. date_body w (fst p) (snd p)) (map (\<lambda>date. (ticker, date)) ds) v s"
    for ds v s
    by (induction ds arbitrary: v s) (auto split: prod.splits sum.splits)
  have p: "pairs (ticker # tickers) dates = map (\<lambda>date. (ticker, date)) dates @ pairs tickers dates"
    by (simp add: pairs_def)
  show ?case
    unfolding p for_each_st_append
    using Cons.IH
    by (auto simp: ticker_body_def inner split: prod.splits sum.splits)
qed

lemma navigate_result:
  "\<exists>st'. navigate w url wait_condition additional_wait st
           = (Inr (nav_ok w (loads st) url wait_condition additional_wait), st')
        \<and> loads st' = loads st + 1 \<and> driver st' = driver st
        \<and> other_calls (effects st') = other_calls (effects st)
        \<and> requested (effects st') = requested (effects st) @ [url]
        \<and> (if nav_ok w (loads st) url wait_condition additional_wait
            then logger st' = logger st
            else \<exists>e. logger st' = logger st @ [(ERROR, NavigationError e)])"
  by (cases "get_raises w (loads st) url"; cases wait_condition; cases "until_raises w (loads st)";
      cases "sleep_raises w additional_wait")
     (auto simp: navigate_def navigate_try_def nav_ok_def log_msg_def Let_def)


lemma init_ok:
  assumes "init w browser headless t r = (Inr (), st0)"
  shows "lower browser = ''chrome''" and "driver st0" and "loads st0 = 0"
    and "effects st0 = [Makedirs, InstallDriver, StartChrome (chrome_options headless)]"
    and "logger st0 = [(INFO, WebDriverInitialized)]"
  using assms
  by (cases "makedirs_raises w"; cases "install_raises w"; cases "chrome_raises w";
      auto simp: init_def setup_webdriver_def fresh_def log_msg_def split: if_splits)+

lemma close_result:
  "\<exists>m. close w st = (Inr (), st\<lparr>effects := effects st @ (if driver st then [Quit] else []),
                                  logger := logger st @ [m]\<rparr>)"
  by (cases "quit_raises w") (auto simp: close_def log_msg_def)

lemma execute_script_frame:
  "snd (execute_script w st) = st\<lparr>effects := effects st @ [ExecuteScript]\<rparr>"
  by (auto simp: execute_script_def split: sum.splits)

lemma next_do_pure_snd: "snd (next_do r (\<lambda>x s. (g x, s))) = snd r"
  by (cases r) (auto simp: next_do_def split: sum.splits)

lemma date_body_frame:
  assumes "date_body w ticker date all_data st = (r, st')"
  shows "loads st' = loads st + 1" and "driver st' = driver st"
    and "other_calls (effects st') = other_calls (effects st)"
    and "requested (effects st') = requested (effects st) @ [request_url ticker date]"
proof -
  obtain st1 where nav: "navigate w (request_url ticker date) (Some highcharts_ready) 3 st
      = (Inr (nav_ok w (loads st) (request_url ticker date) (Some highcharts_ready) 3), st1)"
    and f: "loads st1 = loads st + 1" "driver st1 = driver st"
      "other_calls (effects st1) = other_calls (effects st)"
      "requested (effects st1) = requested (effects st) @ [request_url ticker date]"
    using navigate_result [of w "request_url ticker date" "Some highcharts_ready" 3 st] by blast
  have same: "loads st' = loads st1 \<and> driver st' = driver st1
      \<and> other_calls (effects st') = other_calls (effects st1)
      \<and> requested (effects st') = requested (effects st1)"
  proof (cases "nav_ok w (loads st) (request_url ticker date) (Some highcharts_ready) 3")
    case True
    with assms nav have "st' = snd (next_do (execute_script w st1)
        (\<lambda>raw_data st2. (normalizer ticker date raw_data all_data, st2)))"
      by (simp add: date_body_def)
    then have "st' = st1\<lparr>effects := effects st1 @ [ExecuteScript]\<rparr>"
      by (simp only: next_do_pure_snd execute_script_frame)
    then show ?thesis by simp
  next
    case False
    with assms nav have "st' = log_msg WARNING (FailedToNavigate ticker date) st1"
      by (simp add: date_body_def)
    then show ?thesis by (simp add: log_msg_def)
  qed
  show "loads st' = loads st + 1" and "driver st' = driver st"
    and "other_calls (effects st') = other_calls (effects st)"
    and "requested (effects st') = requested (effects st) @ [request_url ticker date]"
    using same f by simp_all
qed

lemma date_body_navigation_failed:
  assumes "\<not> nav_ok w (loads st) (request_url ticker date) (Some highcharts_ready) 3"
  shows "\<exists>st' e. date_body w ticker date all_data st = (Inr all_data, st')
           \<and> logger st' = logger st @ [(ERROR, NavigationError e),
                                         (WARNING, FailedToNavigate ticker date)]"
proof -
  obtain st1 e where nav: "navigate w (request_url ticker date) (Some highcharts_ready) 3 st
      = (Inr False, st1)" and l: "logger st1 = logger st @ [(ERROR, NavigationError e)]"
    using navigate_result [of w "request_url ticker date" "Some highcharts_ready" 3 st] assms
    by auto
  show ?thesis
    using nav l by (auto simp: date_body_def log_msg_def)
qed


lemma pair_loop_frame:
  assumes "for_each_st (\<lambda>p. date_body w (fst p) (snd p)) ps all_data st = (r, st')"
  shows "driver st' = driver st \<and> other_calls (effects st') = other_calls (effects st)
       \<and> (\<exists>k\<le>length ps. loads st' = loads st + k
            \<and> requested (effects st')
                = requested (effects st) @ map (\<lambda>p. request_url (fst p) (snd p)) (take k ps)
            \<and> (case r of Inl e \<Rightarrow> 0 < k | Inr _ \<Rightarrow> k = length ps))"
  using assms
proof (induction ps arbitrary: all_data st)
  case Nil
  then show ?case by auto
next
  case (Cons p ps)
  obtain r1 st1 where b: "date_body w (fst p) (snd p) all_data st = (r1, st1)"
    by (cases "date_body w (fst p) (snd p) all_data st")
  note f = date_body_frame [OF b]
  show ?case
  proof (cases r1)
    case (Inl e)
    with Cons.prems b have "r = Inl e" "st' = st1" by auto
    with f show ?thesis
      by (intro conjI exI [of _ 1]) auto
  next
    case (Inr v)
    with Cons.prems b have "for_each_st (\<lambda>p. date_body w (fst p) (snd p)) ps v st1 = (r, st')"
      by auto
    from Cons.IH [OF this] obtain k where k: "k \<le> length ps" "loads st' = loads st1 + k"
      "requested (effects st') = requested (effects st1) @ map (\<lambda>p. request_url (fst p) (snd p)) (take k ps)"
      "case r of Inl e \<Rightarrow> 0 < k | Inr _ \<Rightarrow> k = length ps"
      and d: "driver st' = driver st1" "other_calls (effects st') = other_calls (effects st1)"
      by blast
    show ?thesis
      using k d f
      by (intro conjI exI [of _ "Suc k"]) (auto split: sum.splits)
  qed
qed

subsection \<open>The strings that \<^verbatim>\<open>lower\<close> takes to \<^verbatim>\<open>chrome\<close>\<close>

lemma lower_char_chrome:
  "lower_char x = CHR ''c'' \<longleftrightarrow> x = CHR ''c'' \<or> x = CHR ''C''"
  "lower_char x = CHR ''h'' \<longleftrightarrow> x = CHR ''h'' \<or> x = CHR ''H''"
  "lower_char x = CHR ''r'' \<longleftrightarrow> x = CHR ''r'' \<or> x = CHR ''R''"
  "lower_char x = CHR ''o'' \<longleftrightarrow> x = CHR ''o'' \<or> x = CHR ''O''"
  "lower_char x = CHR ''m'' \<longleftrightarrow> x = CHR ''m'' \<or> x = CHR ''M''"
  "lower_char x = CHR ''e'' \<longleftrightarrow> x = CHR ''e'' \<or> x = CHR ''E''"
  by (auto simp: lower_char_def split: if_splits)

lemma lower_chrome_iff:
  "lower b = ''chrome'' \<longleftrightarrow>
     (\<exists>c1 c2 c3 c4 c5 c6. b = [c1, c2, c3, c4, c5, c6]
        \<and> (c1 = CHR ''c'' \<or> c1 = CHR ''C'') \<and> (c2 = CHR ''h'' \<or> c2 = CHR ''H'')
        \<and> (c3 = CHR ''r'' \<or> c3 = CHR ''R'') \<and> (c4 = CHR ''o'' \<or> c4 = CHR ''O'')
        \<and> (c5 = CHR ''m'' \<or> c5 = CHR ''M'') \<and> (c6 = CHR ''e'' \<or> c6 = CHR ''E''))"
proof
  assume "lower b = ''chrome''"
  then have m: "map lower_char b = ''chrome''" by (simp add: lower_def)
  then obtain c1 b1 where 1: "b = c1 # b1" "lower_char c1 = CHR ''c''" "map lower_char b1 = ''hrome''"
    by (cases b) auto
  then obtain c2 b2 where 2: "b1 = c2 # b2" "lower_char c2 = CHR ''h''" "map lower_char b2 = ''rome''"
    by (cases b1) auto
  then obtain c3 b3 where 3: "b2 = c3 # b3" "lower_char c3 = CHR ''r''" "map lower_char b3 = ''ome''"
    by (cases b2) auto
  then obtain c4 b4 where 4: "b3 = c4 # b4" "lower_char c4 = CHR ''o''" "map lower_char b4 = ''me''"
    by (cases b3) auto
  then obtain c5 b5 where 5: "b4 = c5 # b5" "lower_char c5 = CHR ''m''" "map lower_char b5 = ''e''"
    by (cases b4) auto
  then obtain c6 where 6: "b5 = [c6]" "lower_char c6 = CHR ''e''"
    by (cases b5) auto
  have "b = [c1, c2, c3, c4, c5, c6]"
    using 1(1) 2(1) 3(1) 4(1) 5(1) 6(1) by simp
  moreover note 1(2) [unfolded lower_char_chrome] 2(2) [unfolded lower_char_chrome]
    3(2) [unfolded lower_char_chrome] 4(2) [unfolded lower_char_chrome]
    5(2) [unfolded lower_char_chrome] 6(2) [unfolded lower_char_chrome]
  ultimately show "\<exists>c1 c2 c3 c4 c5 c6. b = [c1, c2, c3, c4, c5, c6]
        \<and> (c1 = CHR ''c'' \<or> c1 = CHR ''C'') \<and> (c2 = CHR ''h'' \<or> c2 = CHR ''H'')
        \<and> (c3 = CHR ''r'' \<or> c3 = CHR ''R'') \<and> (c4 = CHR ''o'' \<or> c4 = CHR ''O'')
        \<and> (c5 = CHR ''m'' \<or> c5 = CHR ''M'') \<and> (c6 = CHR ''e'' \<or> c6 = CHR ''E'')"
    by (intro exI conjI)
next
  assume "\<exists>c1 c2 c3 c4 c5 c6. b = [c1, c2, c3, c4, c5, c6]
        \<and> (c1 = CHR ''c'' \<or> c1 = CHR ''C'') \<and> (c2 = CHR ''h'' \<or> c2 = CHR ''H'')
        \<and> (c3 = CHR ''r'' \<or> c3 = CHR ''R'') \<and> (c4 = CHR ''o'' \<or> c4 = CHR ''O'')
        \<and> (c5 = CHR ''m'' \<or> c5 = CHR ''M'') \<and> (c6 = CHR ''e'' \<or> c6 = CHR ''E'')"
  then obtain c1 c2 c3 c4 c5 c6 where b: "b = [c1, c2, c3, c4, c5, c6]"
    and l: "lower_char c1 = CHR ''c''" "lower_char c2 = CHR ''h''" "lower_char c3 = CHR ''r''"
      "lower_char c4 = CHR ''o''" "lower_char c5 = CHR ''m''" "lower_char c6 = CHR ''e''"
    unfolding lower_char_chrome by blast
  show "lower b = ''chrome''"
    by (simp add: lower_def b l)
qed

subsection \<open>The run as one loop over the requests\<close>

lemma scrape_try_pairs:
  "scrape_try w tickers dates st =
     next_do (pair_loop w (pairs tickers dates) [] st) (\<lambda>all_data st1.
     next_do (call (ToCsv all_data) (to_csv_raises w all_data) st1) (\<lambda>_ st2.
       (Inr (), log_msg INFO SavedConsolidatedData st2)))"
  by (simp add: scrape_try_def nested_loops_flat pair_loop_def)

lemma run_cases:
  assumes "init w ''chrome'' False 30 3 = (Inr (), st0)"
  shows "nyse_auction_scraper_example w tickers dates =
     (case pair_loop w (pairs tickers dates) [] st0 of
        (Inl e, st1) \<Rightarrow> close w (log_msg ERROR (ScrapingFailed e) st1)
      | (Inr all_data, st1) \<Rightarrow>
          (case to_csv_raises w all_data of
             Some e \<Rightarrow> close w (log_msg ERROR (ScrapingFailed e)
                                 (st1\<lparr>effects := effects st1 @ [ToCsv all_data]\<rparr>))
           | None \<Rightarrow> close w (log_msg INFO SavedConsolidatedData
                               (st1\<lparr>effects := effects st1 @ [ToCsv all_data]\<rparr>))))"
  using assms
  by (auto simp: nyse_auction_scraper_example_def scrape_try_pairs split: prod.splits sum.splits option.splits)

lemma pair_loop_frame':
  assumes "pair_loop w ps all_data st = (r, st')"
  shows "driver st' = driver st" and "other_calls (effects st') = other_calls (effects st)"
    and "\<exists>k\<le>length ps. loads st' = loads st + k
            \<and> requested (effects st')
                = requested (effects st) @ map (\<lambda>p. request_url (fst p) (snd p)) (take k ps)
            \<and> (case r of Inl e \<Rightarrow> 0 < k | Inr _ \<Rightarrow> k = length ps)"
  using pair_loop_frame [OF assms [unfolded pair_loop_def]] by blast+

lemma close_after_run:
  assumes "driver st" and "Quit \<notin> set (effects st)"
  shows "fst (close w (log_msg l m st)) = Inr ()"
    and "effects (snd (close w (log_msg l m st))) = effects st @ [Quit]"
  using close_result [of w "log_msg l m st"] assms
  by (auto simp: log_msg_def)


lemma run_state:
  assumes init: "init w ''chrome'' False 30 3 = (Inr (), st0)"
    and loop: "pair_loop w ps all_data st0 = (r, st1)"
  shows "driver st1" and "Quit \<notin> set (effects st1)" and "exported (effects st1) = []"
    and "other_calls (effects st1) = [Makedirs, InstallDriver, StartChrome (chrome_options False)]"
proof -
  note i = init_ok [OF init]
  note f = pair_loop_frame' [OF loop]
  show "driver st1" using f(1) i(2) by simp
  show oc: "other_calls (effects st1) = [Makedirs, InstallDriver, StartChrome (chrome_options False)]"
    using f(2) i(4) by simp
  show "Quit \<notin> set (effects st1)"
    using Quit_other_calls [of "effects st1"] oc by simp
  show "exported (effects st1) = []"
    using exported_other_calls [of "effects st1"] oc by simp
qed

lemma pair_loop_abort:
  assumes "pair_loop w before all0 st0 = (Inr all_data, st)"
    and "date_body w ticker date all_data st = (Inl e, st')"
  shows "pair_loop w (before @ (ticker, date) # remaining) all0 st0 = (Inl e, st')"
  using assms by (simp add: pair_loop_def for_each_st_append)

lemmas run_eval =
  nyse_auction_scraper_example_def scrape_try_def ticker_body_def date_body_def navigate_def
  navigate_try_def execute_script_def close_def init_def setup_webdriver_def lower_def
  lower_char_def fresh_def log_msg_def pair_loop_def pairs_def Let_def
  raw_data_script_def extract_raw_def normalizer_def auction_type_body_def
  quiet_world_def script_error_world_def export_error_world_def timeout_world_def

subsection \<open>The claims on \<^verbatim>\<open>navigate\<close> and on the construction of the scraper\<close>

text \<open>
  Claim C5: for every URL, wait condition and settle delay and every behaviour of the
  driver, \<^verbatim>\<open>navigate\<close> returns a boolean and raises nothing. It returns \<^verbatim>\<open>True\<close>
  exactly when no step of its \<^verbatim>\<open>try\<close> block raises, and then logs nothing; otherwise
  it returns \<^verbatim>\<open>False\<close> and has logged the exception the block raised.
\<close>

theorem navigate_never_raises:
  "\<exists>st'. navigate w url wait_condition additional_wait st
           = (Inr (nav_ok w (loads st) url wait_condition additional_wait), st')
        \<and> (if nav_ok w (loads st) url wait_condition additional_wait
            then fst (navigate_try w url wait_condition additional_wait st) = Inr True
               \<and> logger st' = logger st
            else \<exists>e. fst (navigate_try w url wait_condition additional_wait st) = Inl e
               \<and> logger st' = logger st @ [(ERROR, NavigationError e)])"
  by (cases "get_raises w (loads st) url"; cases wait_condition; cases "until_raises w (loads st)";
      cases "sleep_raises w additional_wait")
     (auto simp: navigate_def navigate_try_def nav_ok_def log_msg_def Let_def)

text \<open>A readiness timeout gives \<^verbatim>\<open>False\<close> and one log line; a page that loads gives \<^verbatim>\<open>True\<close>.\<close>

theorem navigate_never_raises_witness:
  "fst (navigate timeout_world (request_url ''A'' ''12-02-2024'') (Some highcharts_ready) 3 fresh)
     = Inr False
   \<and> logger (snd (navigate timeout_world (request_url ''A'' ''12-02-2024'') (Some highcharts_ready) 3 fresh))
     = [(ERROR, NavigationError (DriverError ''TimeoutException''))]
   \<and> fst (navigate quiet_world (request_url ''A'' ''12-02-2024'') (Some highcharts_ready) 3 fresh)
     = Inr True"
proof -
  have bad: "\<not> nav_ok timeout_world (loads fresh) (request_url ''A'' ''12-02-2024'') (Some highcharts_ready) 3"
    by (simp add: nav_ok_def timeout_world_def quiet_world_def)
  have good: "nav_ok quiet_world (loads fresh) (request_url ''A'' ''12-02-2024'') (Some highcharts_ready) 3"
    by (simp add: nav_ok_def quiet_world_def)
  have t: "fst (navigate_try timeout_world (request_url ''A'' ''12-02-2024'') (Some highcharts_ready) 3 fresh)
             = Inl (DriverError ''TimeoutException'')"
    by (simp add: navigate_try_def timeout_world_def quiet_world_def fresh_def)
  from navigate_never_raises [of timeout_world "request_url ''A'' ''12-02-2024''" "Some highcharts_ready" 3 fresh]
    bad t
  have 1: "fst (navigate timeout_world (request_url ''A'' ''12-02-2024'') (Some highcharts_ready) 3 fresh)
     = Inr False
   \<and> logger (snd (navigate timeout_world (request_url ''A'' ''12-02-2024'') (Some highcharts_ready) 3 fresh))
     = [(ERROR, NavigationError (DriverError ''TimeoutException''))]"
    by (auto simp: fresh_def)
  from navigate_never_raises [of quiet_world "request_url ''A'' ''12-02-2024''" "Some highcharts_ready" 3 fresh]
    good
  have 2: "fst (navigate quiet_world (request_url ''A'' ''12-02-2024'') (Some highcharts_ready) 3 fresh)
     = Inr True"
    by auto
  from 1 2 show ?thesis by blast
qed

text \<open>
  Claim C10: the browser argument lowercases to \<^verbatim>\<open>chrome\<close> exactly when it is the word
  \<^verbatim>\<open>chrome\<close> in some letter case. Then \<^verbatim>\<open>_setup_webdriver\<close> goes on to the driver: it
  installs the driver and starts Chrome with the options of the source, in that order,
  stops at the first of the two that raises, and otherwise holds a driver and logs the
  success; the constructor does the same once the output directory exists, and raises
  what \<^verbatim>\<open>os.makedirs\<close> raises, no call for a driver made, when it does not. For every
  other argument \<^verbatim>\<open>_setup_webdriver\<close> raises \<^verbatim>\<open>ValueError\<close> and leaves the state as it
  was, no call for a driver made, and so does the constructor once the output
  directory exists.
\<close>

theorem setup_webdriver_checks_browser:
  "(lower browser = ''chrome'' \<longleftrightarrow>
      (\<exists>c1 c2 c3 c4 c5 c6. browser = [c1, c2, c3, c4, c5, c6]
         \<and> (c1 = CHR ''c'' \<or> c1 = CHR ''C'') \<and> (c2 = CHR ''h'' \<or> c2 = CHR ''H'')
         \<and> (c3 = CHR ''r'' \<or> c3 = CHR ''R'') \<and> (c4 = CHR ''o'' \<or> c4 = CHR ''O'')
         \<and> (c5 = CHR ''m'' \<or> c5 = CHR ''M'') \<and> (c6 = CHR ''e'' \<or> c6 = CHR ''E'')))
   \<and> (if lower browser = ''chrome''
    then (\<exists>rest. effects (snd (setup_webdriver w browser headless st))
                  = effects st @ InstallDriver # rest)
       \<and> setup_webdriver w browser headless st
           = (case install_raises w of
                Some e \<Rightarrow> (Inl e, st\<lparr>effects := effects st @ [InstallDriver]\<rparr>)
              | None \<Rightarrow>
                  (case chrome_raises w of
                     Some e \<Rightarrow>
                       (Inl e, st\<lparr>effects := effects st
                                   @ [InstallDriver, StartChrome (chrome_options headless)]\<rparr>)
                   | None \<Rightarrow>
                       (Inr (), st\<lparr>driver := True,
                                   logger := logger st @ [(INFO, WebDriverInitialized)],
                                   effects := effects st
                                   @ [InstallDriver, StartChrome (chrome_options headless)]\<rparr>)))
       \<and> init w browser headless timeout_s retries
           = (case makedirs_raises w of
                Some e \<Rightarrow> (Inl e,
                            fresh\<lparr>timeout := timeout_s, retry_attempts := retries,
                                  effects := [Makedirs]\<rparr>)
              | None \<Rightarrow>
                  (case install_raises w of
                     Some e \<Rightarrow>
                       (Inl e, fresh\<lparr>timeout := timeout_s, retry_attempts := retries,
                                      effects := [Makedirs, InstallDriver]\<rparr>)
                   | None \<Rightarrow>
                       (case chrome_raises w of
                          Some e \<Rightarrow>
                            (Inl e, fresh\<lparr>timeout := timeout_s, retry_attempts := retries,
                                           effects := [Makedirs, InstallDriver,
                                                       StartChrome (chrome_options headless)]\<rparr>)
                        | None \<Rightarrow>
                            (Inr (), fresh\<lparr>timeout := timeout_s, retry_attempts := retries,
                                            driver := True,
                                            logger := [(INFO, WebDriverInitialized)],
                                            effects := [Makedirs, InstallDriver,
                                                        StartChrome (chrome_options headless)]\<rparr>))))
    else setup_webdriver w browser headless st = (Inl ValueError, st)
       \<and> init w browser headless timeout_s retries
           = (case makedirs_raises w of
                None \<Rightarrow> (Inl ValueError,
                          fresh\<lparr>timeout := timeout_s, retry_attempts := retries,
                                effects := [Makedirs]\<rparr>)
              | Some e \<Rightarrow> (Inl e,
                            fresh\<lparr>timeout := timeout_s, retry_attempts := retries,
                                  effects := [Makedirs]\<rparr>)))"
proof (rule conjI)
  show "lower browser = ''chrome'' \<longleftrightarrow>
      (\<exists>c1 c2 c3 c4 c5 c6. browser = [c1, c2, c3, c4, c5, c6]
         \<and> (c1 = CHR ''c'' \<or> c1 = CHR ''C'') \<and> (c2 = CHR ''h'' \<or> c2 = CHR ''H'')
         \<and> (c3 = CHR ''r'' \<or> c3 = CHR ''R'') \<and> (c4 = CHR ''o'' \<or> c4 = CHR ''O'')
         \<and> (c5 = CHR ''m'' \<or> c5 = CHR ''M'') \<and> (c6 = CHR ''e'' \<or> c6 = CHR ''E''))"
    by (rule lower_chrome_iff)
  show "if lower browser = ''chrome''
    then (\<exists>rest. effects (snd (setup_webdriver w browser headless st))
                  = effects st @ InstallDriver # rest)
       \<and> setup_webdriver w browser headless st
           = (case install_raises w of
                Some e \<Rightarrow> (Inl e, st\<lparr>effects := effects st @ [InstallDriver]\<rparr>)
              | None \<Rightarrow>
                  (case chrome_raises w of
                     Some e \<Rightarrow>
                       (Inl e, st\<lparr>effects := effects st
                                   @ [InstallDriver, StartChrome (chrome_options headless)]\<rparr>)
                   | None \<Rightarrow>
                       (Inr (), st\<lparr>driver := True,
                                   logger := logger st @ [(INFO, WebDriverInitialized)],
                                   effects := effects st
                                   @ [InstallDriver, StartChrome (chrome_options headless)]\<rparr>)))
       \<and> init w browser headless timeout_s retries
           = (case makedirs_raises w of
                Some e \<Rightarrow> (Inl e,
                            fresh\<lparr>timeout := timeout_s, retry_attempts := retries,
                                  effects := [Makedirs]\<rparr>)
              | None \<Rightarrow>
                  (case install_raises w of
                     Some e \<Rightarrow>
                       (Inl e, fresh\<lparr>timeout := timeout_s, retry_attempts := retries,
                                      effects := [Makedirs, InstallDriver]\<rparr>)
                   | None \<Rightarrow>
                       (case chrome_raises w of
                          Some e \<Rightarrow>
                            (Inl e, fresh\<lparr>timeout := timeout_s, retry_attempts := retries,
                                           effects := [Makedirs, InstallDriver,
                                                       StartChrome (chrome_options headless)]\<rparr>)
                        | None \<Rightarrow>
                            (Inr (), fresh\<lparr>timeout := timeout_s, retry_attempts := retries,
                                            driver := True,
                                            logger := [(INFO, WebDriverInitialized)],
                                            effects := [Makedirs, InstallDriver,
                                                        StartChrome (chrome_options headless)]\<rparr>))))
    else setup_webdriver w browser headless st = (Inl ValueError, st)
       \<and> init w browser headless timeout_s retries
           = (case makedirs_raises w of
                None \<Rightarrow> (Inl ValueError,
                          fresh\<lparr>timeout := timeout_s, retry_attempts := retries,
                                effects := [Makedirs]\<rparr>)
              | Some e \<Rightarrow> (Inl e,
                            fresh\<lparr>timeout := timeout_s, retry_attempts := retries,
                                  effects := [Makedirs]\<rparr>))"
    by (cases "makedirs_raises w"; cases "install_raises w"; cases "chrome_raises w")
       (auto simp: setup_webdriver_def init_def fresh_def log_msg_def call_def next_do_def)
qed

text \<open>
  Firefox in two spellings is refused with no call for a driver; Chrome in two spellings
  goes on to the driver, from \<^verbatim>\<open>_setup_webdriver\<close> and from the constructor.
\<close>

theorem setup_webdriver_checks_browser_witness:
  "setup_webdriver quiet_world ''firefox'' True fresh = (Inl ValueError, fresh)
   \<and> fst (init quiet_world ''Firefox'' True 30 3) = Inl ValueError
   \<and> effects (snd (init quiet_world ''Firefox'' True 30 3)) = [Makedirs]
   \<and> (\<exists>rest. effects (snd (setup_webdriver quiet_world ''CHROME'' True fresh)) = effects fresh @ InstallDriver # rest)
   \<and> (\<exists>rest. effects (snd (setup_webdriver quiet_world ''Chrome'' False fresh)) = effects fresh @ InstallDriver # rest)
   \<and> fst (init quiet_world ''CHROME'' True 30 3) = Inr ()
   \<and> effects (snd (init quiet_world ''CHROME'' True 30 3))
       = [Makedirs, InstallDriver, StartChrome (chrome_options True)]
   \<and> driver (snd (init quiet_world ''CHROME'' True 30 3))
   \<and> logger (snd (init quiet_world ''CHROME'' True 30 3)) = [(INFO, WebDriverInitialized)]
   \<and> fst (setup_webdriver quiet_world ''Chrome'' False fresh) = Inr ()
   \<and> effects (snd (setup_webdriver quiet_world ''Chrome'' False fresh))
       = [InstallDriver, StartChrome (chrome_options False)]"
proof -
  have l: "lower ''firefox'' \<noteq> ''chrome''" "lower ''Firefox'' \<noteq> ''chrome''"
    "lower ''CHROME'' = ''chrome''" "lower ''Chrome'' = ''chrome''"
    by (simp_all add: lower_def lower_char_def)
  have m: "makedirs_raises quiet_world = None" "install_raises quiet_world = None"
    "chrome_raises quiet_world = None"
    by (simp_all add: quiet_world_def)
  have f: "effects fresh = []"
    by (simp add: fresh_def)
  from setup_webdriver_checks_browser [of "''firefox''" quiet_world True fresh 30 3] l(1)
  have 1: "setup_webdriver quiet_world ''firefox'' True fresh = (Inl ValueError, fresh)"
    by simp
  from setup_webdriver_checks_browser [of "''Firefox''" quiet_world True fresh 30 3] l(2) m
  have 2: "fst (init quiet_world ''Firefox'' True 30 3) = Inl ValueError"
    "effects (snd (init quiet_world ''Firefox'' True 30 3)) = [Makedirs]"
    by simp_all
  from setup_webdriver_checks_browser [of "''CHROME''" quiet_world True fresh 30 3] l(3) m
  have 3: "\<exists>rest. effects (snd (setup_webdriver quiet_world ''CHROME'' True fresh)) = effects fresh @ InstallDriver # rest"
    "fst (init quiet_world ''CHROME'' True 30 3) = Inr ()"
    "effects (snd (init quiet_world ''CHROME'' True 30 3))
       = [Makedirs, InstallDriver, StartChrome (chrome_options True)]"
    "driver (snd (init quiet_world ''CHROME'' True 30 3))"
    "logger (snd (init quiet_world ''CHROME'' True 30 3)) = [(INFO, WebDriverInitialized)]"
    by simp_all
  from setup_webdriver_checks_browser [of "''Chrome''" quiet_world False fresh 30 3] l(4) m f
  have 4: "\<exists>rest. effects (snd (setup_webdriver quiet_world ''Chrome'' False fresh)) = effects fresh @ InstallDriver # rest"
    "fst (setup_webdriver quiet_world ''Chrome'' False fresh) = Inr ()"
    "effects (snd (setup_webdriver quiet_world ''Chrome'' False fresh))
       = [InstallDriver, StartChrome (chrome_options False)]"
    by simp_all
  from 1 2 3 4 show ?thesis by blast
qed

subsection \<open>The claims on the run\<close>



text \<open>
  Claim C2 says that an exception escaping the extractor or the normalizer for one pair
  is caught, counted as zero records for that pair, and that the iteration goes on,
  and that an exception of the export propagates. The code has one \<^verbatim>\<open>try\<close> around both
  loops and the export. Here the script raises on the first of two pages: the run
  returns normally, the second page is never requested and nothing is exported. And
  an export that raises is caught and logged, and the run returns normally too.
\<close>

theorem isolation_counterexample:
  "script_result script_error_world 1 = Inl (DriverError ''JavascriptException'')
   \<and> fst (nyse_auction_scraper_example script_error_world [''A''] [''12-02-2024'', ''12-03-2024''])
       = Inr ()
   \<and> requested (effects (snd (nyse_auction_scraper_example script_error_world [''A'']
                                  [''12-02-2024'', ''12-03-2024''])))
       = [request_url ''A'' ''12-02-2024'']
   \<and> exported (effects (snd (nyse_auction_scraper_example script_error_world [''A'']
                                 [''12-02-2024'', ''12-03-2024''])))
       = []
   \<and> to_csv_raises export_error_world [] = Some (IOError ''disk full'')
   \<and> fst (nyse_auction_scraper_example export_error_world [''A''] [''12-02-2024'']) = Inr ()
   \<and> logger (snd (nyse_auction_scraper_example export_error_world [''A''] [''12-02-2024'']))
       = [(INFO, WebDriverInitialized), (ERROR, ScrapingFailed (IOError ''disk full'')),
          (INFO, WebDriverClosed)]"
  by (simp add: run_eval)

text \<open>
  Claim C2, as amended: once the scraper is constructed the function raises nothing,
  and the last call it makes is the one \<^verbatim>\<open>driver.quit()\<close> of the run. An exception
  escaping the extractor or the normalizer for a pair is caught by the handler around
  the whole run, logged, and ends the iteration: the pairs after it are not requested
  and nothing is exported. An exception of the export is caught and logged by the same
  handler. A navigation that fails is logged by \<^verbatim>\<open>navigate\<close> and by the loop, adds no
  record, and lets the loop go on.
\<close>

theorem run_level_handler:
  assumes init: "init w ''chrome'' False 30 3 = (Inr (), st0)"
  shows "fst (nyse_auction_scraper_example w tickers dates) = Inr ()
       \<and> (\<exists>trace. effects (snd (nyse_auction_scraper_example w tickers dates)) = trace @ [Quit]
             \<and> Quit \<notin> set trace)
       \<and> (\<forall>before ticker date remaining all_data st e st'.
             pairs tickers dates = before @ (ticker, date) # remaining
             \<and> pair_loop w before [] st0 = (Inr all_data, st)
             \<and> date_body w ticker date all_data st = (Inl e, st')
           \<longrightarrow> nyse_auction_scraper_example w tickers dates
                 = close w (log_msg ERROR (ScrapingFailed e) st')
               \<and> requested (effects (snd (nyse_auction_scraper_example w tickers dates)))
                 = map (\<lambda>p. request_url (fst p) (snd p)) (before @ [(ticker, date)])
               \<and> exported (effects (snd (nyse_auction_scraper_example w tickers dates))) = [])
       \<and> (\<forall>all_data st1 e.
             pair_loop w (pairs tickers dates) [] st0 = (Inr all_data, st1)
             \<and> to_csv_raises w all_data = Some e
           \<longrightarrow> nyse_auction_scraper_example w tickers dates
                 = close w (log_msg ERROR (ScrapingFailed e)
                             (st1\<lparr>effects := effects st1 @ [ToCsv all_data]\<rparr>)))
       \<and> (\<forall>ticker date all_data st.
             \<not> nav_ok w (loads st) (request_url ticker date) (Some highcharts_ready) 3
           \<longrightarrow> (\<exists>st' e. date_body w ticker date all_data st = (Inr all_data, st')
                  \<and> logger st' = logger st @ [(ERROR, NavigationError e),
                                                (WARNING, FailedToNavigate ticker date)]))"
proof (intro conjI allI impI)
  let ?run = "nyse_auction_scraper_example w tickers dates"
  obtain r st1 where loop: "pair_loop w (pairs tickers dates) [] st0 = (r, st1)"
    by (cases "pair_loop w (pairs tickers dates) [] st0")
  note s = run_state [OF init loop]
  have shape: "\<exists>l m stx. ?run = close w (log_msg l m stx) \<and> driver stx \<and> Quit \<notin> set (effects stx)"
  proof (cases r)
    case (Inl e)
    then have "?run = close w (log_msg ERROR (ScrapingFailed e) st1)"
      using run_cases [OF init, of tickers dates] loop by simp
    with s(1,2) show ?thesis by blast
  next
    case (Inr all_data)
    let ?st = "st1\<lparr>effects := effects st1 @ [ToCsv all_data]\<rparr>"
    have d: "driver ?st" "Quit \<notin> set (effects ?st)" using s(1,2) by simp_all
    show ?thesis
    proof (cases "to_csv_raises w all_data")
      case None
      then have "?run = close w (log_msg INFO SavedConsolidatedData ?st)"
        using run_cases [OF init, of tickers dates] loop Inr by simp
      with d show ?thesis by blast
    next
      case (Some e)
      then have "?run = close w (log_msg ERROR (ScrapingFailed e) ?st)"
        using run_cases [OF init, of tickers dates] loop Inr by simp
      with d show ?thesis by blast
    qed
  qed
  then obtain l m stx where run: "?run = close w (log_msg l m stx)"
    and stx: "driver stx" "Quit \<notin> set (effects stx)" by blast
  show "fst ?run = Inr ()"
    using close_after_run(1) [OF stx, of w l m] run by simp
  show "\<exists>trace. effects (snd ?run) = trace @ [Quit] \<and> Quit \<notin> set trace"
    using close_after_run(2) [OF stx, of w l m] run stx(2) by auto
next
  fix before remaining :: "(string \<times> string) list" and ticker date :: string
    and all_data :: "json list" and st st' :: state and e :: exn
  assume h: "pairs tickers dates = before @ (ticker, date) # remaining
             \<and> pair_loop w before [] st0 = (Inr all_data, st)
             \<and> date_body w ticker date all_data st = (Inl e, st')"
  let ?run = "nyse_auction_scraper_example w tickers dates"
  from h have loop: "pair_loop w (pairs tickers dates) [] st0 = (Inl e, st')"
    using pair_loop_abort [of w before "[]" st0 all_data st ticker date e st' remaining] by simp
  note s = run_state [OF init loop]
  show run: "?run = close w (log_msg ERROR (ScrapingFailed e) st')"
    using run_cases [OF init, of tickers dates] loop by simp
  have eff: "effects (snd ?run) = effects st' @ [Quit]"
    using close_after_run(2) [OF s(1,2), of w ERROR "ScrapingFailed e"] run by simp
  from h have b: "pair_loop w before [] st0 = (Inr all_data, st)" by simp
  from pair_loop_frame'(3) [OF b] init_ok(4) [OF init]
  have rb: "requested (effects st) = map (\<lambda>p. request_url (fst p) (snd p)) before"
    by auto
  from h have "date_body w ticker date all_data st = (Inl e, st')" by simp
  from date_body_frame(4) [OF this] rb
  have "requested (effects st') = map (\<lambda>p. request_url (fst p) (snd p)) (before @ [(ticker, date)])"
    by simp
  with eff show "requested (effects (snd ?run))
                 = map (\<lambda>p. request_url (fst p) (snd p)) (before @ [(ticker, date)])"
    by simp
  show "exported (effects (snd ?run)) = []"
    using eff s(3) by simp
next
  fix all_data :: "json list" and st1 :: state and e :: exn
  assume h: "pair_loop w (pairs tickers dates) [] st0 = (Inr all_data, st1)
             \<and> to_csv_raises w all_data = Some e"
  then show "nyse_auction_scraper_example w tickers dates
                 = close w (log_msg ERROR (ScrapingFailed e)
                             (st1\<lparr>effects := effects st1 @ [ToCsv all_data]\<rparr>))"
    using run_cases [OF init, of tickers dates] by simp
next
  fix ticker date :: string and all_data :: "json list" and st :: state
  assume "\<not> nav_ok w (loads st) (request_url ticker date) (Some highcharts_ready) 3"
  from date_body_navigation_failed [OF this]
  show "\<exists>st' e. date_body w ticker date all_data st = (Inr all_data, st')
                  \<and> logger st' = logger st @ [(ERROR, NavigationError e),
                                                (WARNING, FailedToNavigate ticker date)]"
    by blast
qed

text \<open>
  The parts at concrete worlds: a script that raises on the first of two pages, an
  export that raises, and a wait that times out.
\<close>

theorem run_level_handler_witness:
  "fst (nyse_auction_scraper_example script_error_world [''A''] [''12-02-2024'', ''12-03-2024''])
       = Inr ()
   \<and> (\<exists>trace. effects (snd (nyse_auction_scraper_example script_error_world [''A'']
                                  [''12-02-2024'', ''12-03-2024''])) = trace @ [Quit]
          \<and> Quit \<notin> set trace)
   \<and> requested (effects (snd (nyse_auction_scraper_example script_error_world [''A'']
                                  [''12-02-2024'', ''12-03-2024''])))
       = [request_url ''A'' ''12-02-2024'']
   \<and> exported (effects (snd (nyse_auction_scraper_example script_error_world [''A'']
                                 [''12-02-2024'', ''12-03-2024''])))
       = []
   \<and> (\<exists>st1. nyse_auction_scraper_example export_error_world [''A''] [''12-02-2024'']
         = close export_error_world
             (log_msg ERROR (ScrapingFailed (IOError ''disk full''))
                (st1\<lparr>effects := effects st1 @ [ToCsv []]\<rparr>)))
   \<and> (\<exists>st' e. date_body timeout_world ''A'' ''12-02-2024'' [] fresh = (Inr [], st')
          \<and> logger st' = logger fresh @ [(ERROR, NavigationError e),
                                          (WARNING, FailedToNavigate ''A'' ''12-02-2024'')])"
proof -
  let ?ds = "[''12-02-2024'', ''12-03-2024'']"
  obtain st0 where i: "init script_error_world ''chrome'' False 30 3 = (Inr (), st0)"
    by (simp add: run_eval)
  note t = run_level_handler [OF i, of "[''A'']" ?ds]
  have p: "pairs [''A''] ?ds = [] @ (''A'', ''12-02-2024'') # [(''A'', ''12-03-2024'')]"
    by (simp add: pairs_def)
  have l: "pair_loop script_error_world [] [] st0 = (Inr [], st0)"
    by (simp add: pair_loop_def)
  have "fst (date_body script_error_world ''A'' ''12-02-2024'' [] st0)
          = Inl (DriverError ''JavascriptException'')"
    by (simp add: date_body_def navigate_def navigate_try_def execute_script_def
          script_error_world_def quiet_world_def Let_def)
  then obtain st' where b: "date_body script_error_world ''A'' ''12-02-2024'' [] st0
      = (Inl (DriverError ''JavascriptException''), st')"
    by (cases "date_body script_error_world ''A'' ''12-02-2024'' [] st0") auto
  from t have 1: "fst (nyse_auction_scraper_example script_error_world [''A''] ?ds) = Inr ()"
    and 2: "\<exists>trace. effects (snd (nyse_auction_scraper_example script_error_world [''A''] ?ds))
                 = trace @ [Quit] \<and> Quit \<notin> set trace"
    by blast+
  from t p l b
  have 3: "requested (effects (snd (nyse_auction_scraper_example script_error_world [''A''] ?ds)))
       = map (\<lambda>p. request_url (fst p) (snd p)) ([] @ [(''A'', ''12-02-2024'')])"
    and 4: "exported (effects (snd (nyse_auction_scraper_example script_error_world [''A''] ?ds))) = []"
    by blast+
  obtain st0' where i': "init export_error_world ''chrome'' False 30 3 = (Inr (), st0')"
    by (simp add: run_eval)
  have "fst (pair_loop export_error_world (pairs [''A''] [''12-02-2024'']) [] st0') = Inr []"
    by (simp add: run_eval)
  then obtain st1 where l': "pair_loop export_error_world (pairs [''A''] [''12-02-2024'']) [] st0'
      = (Inr [], st1)"
    by (cases "pair_loop export_error_world (pairs [''A''] [''12-02-2024'']) [] st0'") auto
  have c: "to_csv_raises export_error_world [] = Some (IOError ''disk full'')"
    by (simp add: export_error_world_def)
  from run_level_handler [OF i', of "[''A'']" "[''12-02-2024'']"] l' c
  have 5: "\<exists>st1. nyse_auction_scraper_example export_error_world [''A''] [''12-02-2024'']
         = close export_error_world
             (log_msg ERROR (ScrapingFailed (IOError ''disk full''))
                (st1\<lparr>effects := effects st1 @ [ToCsv []]\<rparr>))"
    by blast
  obtain st0'' where i'': "init timeout_world ''chrome'' False 30 3 = (Inr (), st0'')"
    by (simp add: run_eval)
  have bad: "\<not> nav_ok timeout_world (loads fresh) (request_url ''A'' ''12-02-2024'') (Some highcharts_ready) 3"
    by (simp add: nav_ok_def timeout_world_def quiet_world_def)
  from run_level_handler [OF i'', of "[''A'']" "[''12-02-2024'']"] bad
  have 6: "\<exists>st' e. date_body timeout_world ''A'' ''12-02-2024'' [] fresh = (Inr [], st')
          \<and> logger st' = logger fresh @ [(ERROR, NavigationError e),
                                          (WARNING, FailedToNavigate ''A'' ''12-02-2024'')]"
    by blast
  from 1 2 3 4 5 6 show ?thesis by simp
qed

end
